theory Spec2Isabelle
  imports Complex_Main "HOL-Library.Sublist"
begin

section \<open>Python values and exceptions\<close>

text \<open>
  The program is one Python module, \<^verbatim>\<open>main.py\<close>. A Python \<^verbatim>\<open>str\<close> is a list of characters,
  and a character is a code point below 256: \<open>CHR 0xA0\<close> is the no-break space U+00A0.
  A value decoded by \<^verbatim>\<open>json.loads\<close> is a \<open>json\<close>; a Python \<^verbatim>\<open>dict\<close> is an association
  list read with \<open>map_of\<close>.
\<close>

datatype json =
    JNull
  | JBool bool
  | JInt int
  | JFloat real
  | JStr string
  | JArr "json list"
  | JObj "(string \<times> json) list"

text \<open>
  What \<^verbatim>\<open>jsonschema\<close> reports about an instance that breaks a schema: the path of property
  names from the validated instance to the place of the error (\<^verbatim>\<open>e.path\<close>), the keyword
  that is broken (\<^verbatim>\<open>e.validator\<close>) and the value found at that place (\<^verbatim>\<open>e.instance\<close>).
\<close>

datatype violation = Violation (path: "string list") (keyword: string) (rejected: json)

text \<open>
  Exceptions are values. \<open>Raised\<close> stands for any exception of a collaborator (the model
  service, the database driver, the serialiser) that the module itself never names.
  \<^verbatim>\<open>validate\<close> raises the one error that the library's heuristic \<^verbatim>\<open>best_match\<close> selects
  among those it finds; \<open>ValidationError\<close> keeps all of them, in the order in which the
  library finds them.
\<close>

datatype exn =
    JSONDecodeError string
  | ValidationError "violation list"
  | ValueError
  | IndexError
  | KeyError string
  | TypeError
  | Raised string

section \<open>String operations of the extractor\<close>

text \<open>\<^verbatim>\<open>sub in text\<close>: some suffix of the text starts with \<open>sub\<close>.\<close>

fun contains :: "string \<Rightarrow> string \<Rightarrow> bool" where
  "contains sub [] = (sub = [])"
| "contains sub (c # cs) = (prefix sub (c # cs) \<or> contains sub cs)"

text \<open>
  \<^verbatim>\<open>text.split(sep)\<close> for a non-empty separator: the occurrences are taken from left to
  right and do not overlap. \<open>pieces\<close> is the scan; \<open>split_py\<close> adds the \<^verbatim>\<open>ValueError\<close>
  that Python raises for an empty separator.
\<close>

fun pieces :: "string \<Rightarrow> string \<Rightarrow> string list" where
  "pieces sep [] = [[]]"
| "pieces sep (c # cs) =
     (if prefix sep (c # cs) then [] # pieces sep (drop (length sep - 1) cs)
      else (case pieces sep cs of
              [] \<Rightarrow> [[c]]
            | p # ps \<Rightarrow> (c # p) # ps))"

definition split_py :: "string \<Rightarrow> string \<Rightarrow> exn + string list" where
  "split_py text sep = (if sep = [] then Inl ValueError else Inr (pieces sep text))"

text \<open>\<^verbatim>\<open>xs[i]\<close> for a non-negative index: \<^verbatim>\<open>IndexError\<close> out of range.\<close>

definition index_py :: "'a list \<Rightarrow> nat \<Rightarrow> exn + 'a" where
  "index_py xs i = (if i < length xs then Inr (xs ! i) else Inl IndexError)"

text \<open>
  \<^verbatim>\<open>text.strip()\<close> removes whitespace at both ends. The whitespace characters are the
  twelve code points below 256 for which \<^verbatim>\<open>str.isspace\<close> holds: U+0009 to U+000D, U+001C
  to U+001F, the space, the next-line control U+0085 and the no-break space U+00A0.
\<close>

definition is_space :: "char \<Rightarrow> bool" where
  "is_space c = (c \<in> set [CHR 0x09, CHR 0x0A, CHR 0x0B, CHR 0x0C, CHR 0x0D,
                           CHR 0x1C, CHR 0x1D, CHR 0x1E, CHR 0x1F, CHR 0x20,
                           CHR 0x85, CHR 0xA0])"

definition strip :: "string \<Rightarrow> string" where
  "strip s = rev (dropWhile is_space (rev (dropWhile is_space s)))"

section \<open>The extractor\<close>

text \<open>
  \<^verbatim>\<open>
  if '```json' in text:
      json_text = text.split('```json')[1].split('```')[0]
  elif '```' in text:
      json_text = text.split('```')[1].split('```')[0]
  else:
      json_text = text
  json_text = json_text.strip()
  \<close>
  The candidate handed to the second \<^verbatim>\<open>json.loads\<close>. A failing step raises, so the
  result is a sum.
\<close>

definition fence_json :: string where
  "fence_json = ''```json''"

definition fence :: string where
  "fence = ''```''"

definition between :: "string \<Rightarrow> string \<Rightarrow> exn + string" where
  "between text opening =
     (case split_py text opening of
        Inl e \<Rightarrow> Inl e
      | Inr parts \<Rightarrow>
          (case index_py parts 1 of
             Inl e \<Rightarrow> Inl e
           | Inr inner \<Rightarrow>
               (case split_py inner fence of
                  Inl e \<Rightarrow> Inl e
                | Inr parts' \<Rightarrow> index_py parts' 0)))"

definition json_text_of :: "string \<Rightarrow> exn + string" where
  "json_text_of text =
     (case (if contains fence_json text then between text fence_json
            else if contains fence text then between text fence
            else Inr text) of
        Inl e \<Rightarrow> Inl e
      | Inr json_text \<Rightarrow> Inr (strip json_text))"

text \<open>
  \<^verbatim>\<open>extract_json_from_response(text)\<close>. The decoder \<^verbatim>\<open>json.loads\<close> is a parameter. Only a
  \<^verbatim>\<open>JSONDecodeError\<close> of the first call leads to the fallback; every exception of the
  fallback is raised again.
\<close>

definition extract_json_from_response :: "(string \<Rightarrow> exn + json) \<Rightarrow> string \<Rightarrow> exn + json" where
  "extract_json_from_response loads text =
     (case loads text of
        Inr v \<Rightarrow> Inr v
      | Inl (JSONDecodeError m) \<Rightarrow>
          (case json_text_of text of
             Inl e \<Rightarrow> Inl e
           | Inr json_text \<Rightarrow> loads json_text)
      | Inl e \<Rightarrow> Inl e)"

section \<open>The validator\<close>

text \<open>
  \<^verbatim>\<open>validate(instance=..., schema=...)\<close> of the \<^verbatim>\<open>jsonschema\<close> library, for the three keywords
  that the schemas of the module use: \<^verbatim>\<open>type\<close> (with the types \<^verbatim>\<open>object\<close> and \<^verbatim>\<open>string\<close>),
  \<^verbatim>\<open>properties\<close> and \<^verbatim>\<open>required\<close>. A keyword that is absent constrains nothing;
  \<^verbatim>\<open>properties\<close> and \<^verbatim>\<open>required\<close> constrain objects only. \<open>valid\<close> is the library's
  \<^verbatim>\<open>is_valid\<close>.
\<close>

datatype jtype = TObject | TString

datatype schema =
  Schema (stype: "jtype option") (properties: "(string \<times> schema) list") (required: "string list")

fun type_ok :: "jtype option \<Rightarrow> json \<Rightarrow> bool" where
  "type_ok None v = True"
| "type_ok (Some TObject) (JObj kvs) = True"
| "type_ok (Some TString) (JStr s) = True"
| "type_ok (Some t) v = False"

fun valid :: "schema \<Rightarrow> json \<Rightarrow> bool"
  and valid_properties :: "(string \<times> schema) list \<Rightarrow> (string \<times> json) list \<Rightarrow> bool" where
  "valid (Schema ty props req) v =
     (type_ok ty v \<and>
      (case v of
         JObj kvs \<Rightarrow> valid_properties props kvs \<and> list_all (\<lambda>k. map_of kvs k \<noteq> None) req
       | _ \<Rightarrow> True))"
| "valid_properties [] kvs = True"
| "valid_properties ((k, sub) # props) kvs =
     ((case map_of kvs k of None \<Rightarrow> True | Some v \<Rightarrow> valid sub v) \<and> valid_properties props kvs)"

text \<open>
  The library's \<^verbatim>\<open>iter_errors\<close>: the keywords are taken in the order in which the schemas
  of the module write them (\<^verbatim>\<open>type\<close>, \<^verbatim>\<open>properties\<close>, \<^verbatim>\<open>required\<close>). An error of \<^verbatim>\<open>type\<close>
  carries the value that has the wrong type, an error of \<^verbatim>\<open>required\<close> the object that lacks
  the property (one error for each property that is missing), and an error found in the
  value of a property has the name of the property put in front of its path.
\<close>

fun under :: "string \<Rightarrow> violation \<Rightarrow> violation" where
  "under k (Violation p kw x) = Violation (k # p) kw x"

fun iter_errors :: "schema \<Rightarrow> json \<Rightarrow> violation list"
  and property_errors :: "(string \<times> schema) list \<Rightarrow> (string \<times> json) list \<Rightarrow> violation list" where
  "iter_errors (Schema ty props req) v =
     (if type_ok ty v then [] else [Violation [] ''type'' v]) @
     (case v of
        JObj kvs \<Rightarrow>
          property_errors props kvs @
          map (\<lambda>k. Violation [] ''required'' v) (filter (\<lambda>k. map_of kvs k = None) req)
      | _ \<Rightarrow> [])"
| "property_errors [] kvs = []"
| "property_errors ((k, sub) # props) kvs =
     (case map_of kvs k of None \<Rightarrow> [] | Some x \<Rightarrow> map (under k) (iter_errors sub x)) @
     property_errors props kvs"

text \<open>\<^verbatim>\<open>validate(instance, schema)\<close> returns when no error is found and raises otherwise.\<close>

definition validate :: "json \<Rightarrow> schema \<Rightarrow> exn + unit" where
  "validate instance sch =
     (case iter_errors sch instance of
        [] \<Rightarrow> Inr ()
      | e # es \<Rightarrow> Inl (ValidationError (e # es)))"

definition sql_schema :: schema where
  "sql_schema =
     Schema (Some TObject)
       [(''sqlQuery'', Schema (Some TString) [] []),
        (''description'', Schema (Some TString) [] [])]
       [''sqlQuery'']"

definition response_schema :: schema where
  "response_schema =
     Schema (Some TObject) [(''message'', Schema (Some TString) [] [])] [''message'']"

text \<open>\<^verbatim>\<open>obj[key]\<close> for a string key: \<^verbatim>\<open>KeyError\<close> on a dict without the key, \<^verbatim>\<open>TypeError\<close>
  on every other decoded value.\<close>

definition subscript :: "json \<Rightarrow> string \<Rightarrow> exn + json" where
  "subscript v k =
     (case v of
        JObj kvs \<Rightarrow> (case map_of kvs k of None \<Rightarrow> Inl (KeyError k) | Some x \<Rightarrow> Inr x)
      | _ \<Rightarrow> Inl TypeError)"

section \<open>The orchestrator\<close>

text \<open>
  The collaborators of \<^verbatim>\<open>ask\<close> are the two chat sessions, the database cursor,
  \<^verbatim>\<open>json.dumps\<close>, \<^verbatim>\<open>json.loads\<close> and \<^verbatim>\<open>str\<close> on an exception. The calls that \<^verbatim>\<open>ask\<close>
  makes to the outside are recorded as events; what a collaborator answers may depend on
  every call made before (the sessions keep their history, the database its rows), so
  the sessions and the cursor take the events so far.
\<close>

datatype event =
    SqlSend string
  | Execute string
  | RespSend string
  | Sleep nat

datatype sqlval = SqlNull | SqlInt int | SqlReal real | SqlText string | SqlBlob string

record env =
  sql_send :: "event list \<Rightarrow> string \<Rightarrow> exn + string"
  db_fetch :: "event list \<Rightarrow> string \<Rightarrow> exn + sqlval list list"
  dumps :: "sqlval list list \<Rightarrow> exn + string"
  resp_send :: "event list \<Rightarrow> string \<Rightarrow> exn + string"
  loads :: "string \<Rightarrow> exn + json"
  exc_str :: "exn \<Rightarrow> string"

definition sql_prompt :: "string \<Rightarrow> string" where
  "sql_prompt question =
     ''Generate a SQL query for this question: '' @ question @ [CHR 0x0A] @
     ''Respond only with a JSON object in the specified format.''"

definition response_prompt :: "string \<Rightarrow> string \<Rightarrow> string" where
  "response_prompt question dataText =
     ''The question of the user was: '' @ question @ ''.'' @ [CHR 0x0A, CHR 0x0A] @
     '' ----- '' @ [CHR 0x0A, CHR 0x0A] @ '' The result of the query is: '' @ dataText @
     [CHR 0x0A, CHR 0x0A] @ '' ---- '' @ [CHR 0x0A, CHR 0x0A] @
     '' Now give user a pretty message in the specified JSON format.''"

text \<open>
  Lines 194 to 201: the request to the SQL session, extraction, validation and the read
  of \<^verbatim>\<open>sqlQuery\<close>. The result is the value bound to \<^verbatim>\<open>query\<close>.
\<close>

definition sql_stage :: "env \<Rightarrow> string \<Rightarrow> event list \<Rightarrow> exn + json" where
  "sql_stage env question tr =
     (case sql_send env tr (sql_prompt question) of
        Inl e \<Rightarrow> Inl e
      | Inr sql_text \<Rightarrow>
          (case extract_json_from_response (loads env) sql_text of
             Inl e \<Rightarrow> Inl e
           | Inr sql_json \<Rightarrow>
               (case validate sql_json sql_schema of
                  Inl e \<Rightarrow> Inl e
                | Inr _ \<Rightarrow> subscript sql_json ''sqlQuery'')))"

text \<open>
  Lines 208 to 210: \<^verbatim>\<open>cur.execute(query)\<close>, \<^verbatim>\<open>cur.fetchall()\<close>, \<^verbatim>\<open>json.dumps(data)\<close>.
\<close>

definition execute_stage :: "env \<Rightarrow> event list \<Rightarrow> string \<Rightarrow> exn + string" where
  "execute_stage env tr query =
     (case db_fetch env tr query of
        Inl e \<Rightarrow> Inl e
      | Inr data \<Rightarrow> dumps env data)"

text \<open>Lines 216 to 229: the request to the response session, extraction, validation and
  the read of \<^verbatim>\<open>message\<close>.\<close>

definition answer_stage :: "env \<Rightarrow> string \<Rightarrow> event list \<Rightarrow> string \<Rightarrow> exn + json" where
  "answer_stage env question tr dataText =
     (case resp_send env tr (response_prompt question dataText) of
        Inl e \<Rightarrow> Inl e
      | Inr response_text \<Rightarrow>
          (case extract_json_from_response (loads env) response_text of
             Inl e \<Rightarrow> Inl e
           | Inr response_json \<Rightarrow>
               (case validate response_json response_schema of
                  Inl e \<Rightarrow> Inl e
                | Inr _ \<Rightarrow> subscript response_json ''message'')))"

text \<open>
  The body of the \<^verbatim>\<open>try\<close>: one attempt. It returns the value of the \<^verbatim>\<open>return\<close> statement
  or the exception caught by \<^verbatim>\<open>except Exception\<close>, with the events so far. The cursor
  takes a string; for any other value of \<^verbatim>\<open>query\<close> the driver raises \<^verbatim>\<open>TypeError\<close> before
  it executes anything.
\<close>

definition run_attempt :: "env \<Rightarrow> string \<Rightarrow> event list \<Rightarrow> (exn + json) \<times> event list" where
  "run_attempt env question tr =
     (let tr1 = tr @ [SqlSend (sql_prompt question)] in
      case sql_stage env question tr of
        Inl e \<Rightarrow> (Inl e, tr1)
      | Inr (JStr query) \<Rightarrow>
          (let tr2 = tr1 @ [Execute query] in
           case execute_stage env tr1 query of
             Inl e \<Rightarrow> (Inl e, tr2)
           | Inr dataText \<Rightarrow>
               (let tr3 = tr2 @ [RespSend (response_prompt question dataText)] in
                case answer_stage env question tr2 dataText of
                  Inl e \<Rightarrow> (Inl e, tr3)
                | Inr message \<Rightarrow> (Inr message, tr3)))
      | Inr _ \<Rightarrow> (Inl TypeError, tr1))"

text \<open>
  What \<^verbatim>\<open>ask\<close> hands back: the value of \<^verbatim>\<open>return response_json["message"]\<close>, the pair of
  \<^verbatim>\<open>return f"Sorry, I encountered an error: {str(e)}", None\<close>, or \<^verbatim>\<open>None\<close> when the
  \<^verbatim>\<open>for\<close> loop ends without a \<^verbatim>\<open>return\<close>.
\<close>

datatype returned = Value json | PairWithNone string | NoneValue

definition tries :: nat where
  "tries = 4"

definition failure_text :: "env \<Rightarrow> exn \<Rightarrow> string" where
  "failure_text env e = ''Sorry, I encountered an error: '' @ exc_str env e"

text \<open>\<^verbatim>\<open>for attempt in range(tries)\<close>, on the attempts that are left.\<close>

fun ask_loop :: "env \<Rightarrow> string \<Rightarrow> event list \<Rightarrow> nat list \<Rightarrow> returned \<times> event list" where
  "ask_loop env question tr [] = (NoneValue, tr)"
| "ask_loop env question tr (attempt # rest) =
     (case run_attempt env question tr of
        (Inr message, tr') \<Rightarrow> (Value message, tr')
      | (Inl e, tr') \<Rightarrow>
          (if attempt < tries - 1
           then ask_loop env question (tr' @ [Sleep (2 * (attempt + 1))]) rest
           else (PairWithNone (failure_text env e), tr')))"

text \<open>\<^verbatim>\<open>ask(question, history)\<close>; the argument \<^verbatim>\<open>history\<close> is never read. \<open>tr\<close> holds the
  events before the call.\<close>

definition ask :: "env \<Rightarrow> string \<Rightarrow> event list \<Rightarrow> returned \<times> event list" where
  "ask env question tr = ask_loop env question tr [0..<tries]"

section \<open>Observations on the events\<close>

fun sleeps :: "event list \<Rightarrow> nat list" where
  "sleeps [] = []"
| "sleeps (Sleep n # evs) = n # sleeps evs"
| "sleeps (ev # evs) = sleeps evs"

fun executed :: "event list \<Rightarrow> string list" where
  "executed [] = []"
| "executed (Execute query # evs) = query # executed evs"
| "executed (ev # evs) = executed evs"

fun sql_requests :: "event list \<Rightarrow> string list" where
  "sql_requests [] = []"
| "sql_requests (SqlSend prompt # evs) = prompt # sql_requests evs"
| "sql_requests (ev # evs) = sql_requests evs"

fun response_requests :: "event list \<Rightarrow> string list" where
  "response_requests [] = []"
| "response_requests (RespSend prompt # evs) = prompt # response_requests evs"
| "response_requests (ev # evs) = response_requests evs"

section \<open>The text around the first marker\<close>

text \<open>The text before the first occurrence of \<open>sep\<close> (all of it when there is none), and
  the text after the first occurrence (nothing when there is none).\<close>

fun before :: "string \<Rightarrow> string \<Rightarrow> string" where
  "before sep [] = []"
| "before sep (c # cs) = (if prefix sep (c # cs) then [] else c # before sep cs)"

fun after :: "string \<Rightarrow> string \<Rightarrow> string" where
  "after sep [] = []"
| "after sep (c # cs) = (if prefix sep (c # cs) then drop (length sep) (c # cs) else after sep cs)"

text \<open>
  The candidate of the fallback parse as the specification words it: the text between
  the first \<^verbatim>\<open>```json\<close> marker and the next \<^verbatim>\<open>```\<close> marker, else between the first and the
  second \<^verbatim>\<open>```\<close> marker, else the whole text.
\<close>

definition candidate_as_specified :: "string \<Rightarrow> string" where
  "candidate_as_specified text =
     (if contains fence_json text then before fence (after fence_json text)
      else if contains fence text then before fence (after fence text)
      else text)"

text \<open>
  The candidate that the splits of the source select: after the first \<^verbatim>\<open>```json\<close> marker
  the text is cut at the next \<^verbatim>\<open>```json\<close> marker first, and only then at the first \<^verbatim>\<open>```\<close>
  marker of what is left.
\<close>

definition candidate_text :: "string \<Rightarrow> string" where
  "candidate_text text =
     (if contains fence_json text then before fence (before fence_json (after fence_json text))
      else if contains fence text then before fence (after fence text)
      else text)"

section \<open>Replies that differ in the description only\<close>

definition same_but_description :: "json \<Rightarrow> json \<Rightarrow> bool" where
  "same_but_description a b =
     (case (a, b) of
        (JObj kvs, JObj kvs') \<Rightarrow> (\<forall>k. k \<noteq> ''description'' \<longrightarrow> map_of kvs k = map_of kvs' k)
      | _ \<Rightarrow> False)"

definition directive_of :: "env \<Rightarrow> string \<Rightarrow> json option" where
  "directive_of env sql_text =
     (case extract_json_from_response (loads env) sql_text of
        Inl e \<Rightarrow> None
      | Inr v \<Rightarrow> (if valid sql_schema v then Some v else None))"

definition replies_agree :: "env \<Rightarrow> exn + string \<Rightarrow> exn + string \<Rightarrow> bool" where
  "replies_agree env r r' =
     (r = r' \<or>
      (case (r, r') of
         (Inr t, Inr t') \<Rightarrow>
           (case (directive_of env t, directive_of env t') of
              (Some v, Some v') \<Rightarrow> same_but_description v v'
            | _ \<Rightarrow> False)
       | _ \<Rightarrow> False))"

section \<open>A decoder and scenarios for the examples\<close>

text \<open>
  A decoder for the objects that the two prompts ask for: members with string values,
  strings without escapes, JSON whitespace between the tokens. It rejects every other
  text with a \<^verbatim>\<open>JSONDecodeError\<close>, and where it accepts it yields what \<^verbatim>\<open>json.loads\<close>
  yields (the last of two equal keys wins).
\<close>

definition json_ws :: "char \<Rightarrow> bool" where
  "json_ws c = (c \<in> set [CHR 0x20, CHR 0x09, CHR 0x0A, CHR 0x0D])"

fun read_string :: "string \<Rightarrow> (string \<times> string) option" where
  "read_string [] = None"
| "read_string (c # cs) =
     (if c = CHR 0x22 then Some ([], cs)
      else if c = CHR 0x5C \<or> (of_char c :: nat) < 32 then None
      else (case read_string cs of None \<Rightarrow> None | Some (s, r) \<Rightarrow> Some (c # s, r)))"

definition token :: "char \<Rightarrow> string \<Rightarrow> string option" where
  "token c s = (case dropWhile json_ws s of [] \<Rightarrow> None | d # r \<Rightarrow> if d = c then Some r else None)"

fun members :: "nat \<Rightarrow> (string \<times> json) list \<Rightarrow> string \<Rightarrow> ((string \<times> json) list \<times> string) option" where
  "members 0 acc s = None"
| "members (Suc n) acc s =
     (case token (CHR 0x22) s of None \<Rightarrow> None | Some r1 \<Rightarrow>
      (case read_string r1 of None \<Rightarrow> None | Some (k, r2) \<Rightarrow>
       (case token (CHR '':'') r2 of None \<Rightarrow> None | Some r3 \<Rightarrow>
        (case token (CHR 0x22) r3 of None \<Rightarrow> None | Some r4 \<Rightarrow>
         (case read_string r4 of None \<Rightarrow> None | Some (v, r5) \<Rightarrow>
          (case token (CHR ''}'') r5 of Some r6 \<Rightarrow> Some ((k, JStr v) # acc, r6)
           | None \<Rightarrow>
             (case token (CHR '','') r5 of None \<Rightarrow> None
              | Some r6 \<Rightarrow> members n ((k, JStr v) # acc) r6)))))))"

definition decode_object :: "string \<Rightarrow> exn + json" where
  "decode_object text =
     (case token (CHR ''{'') text of
        None \<Rightarrow> Inl (JSONDecodeError ''Expecting value'')
      | Some r \<Rightarrow>
          (case (case token (CHR ''}'') r of Some r' \<Rightarrow> Some ([], r') | None \<Rightarrow> members (length r) [] r) of
             None \<Rightarrow> Inl (JSONDecodeError ''Expecting property name'')
           | Some (kvs, rest) \<Rightarrow>
               (if dropWhile json_ws rest = [] then Inr (JObj kvs)
                else Inl (JSONDecodeError ''Extra data''))))"

text \<open>
  Scripted collaborators: the k-th request to a session, and the k-th statement given to
  the cursor, gets the k-th entry of a script; the serialiser shows every result as the
  one row of a count.
\<close>

definition scripted :: "(exn + 'a) list \<Rightarrow> nat \<Rightarrow> exn + 'a" where
  "scripted script k = (if k < length script then script ! k else Inl (Raised ''no reply''))"

fun describe :: "exn \<Rightarrow> string" where
  "describe (JSONDecodeError m) = m"
| "describe (ValidationError errors) = ''instance rejected by the schema''"
| "describe (Raised m) = m"
| "describe e = ''error''"

definition scenario ::
  "(exn + string) list \<Rightarrow> (exn + sqlval list list) list \<Rightarrow> (exn + string) list \<Rightarrow> env" where
  "scenario sql_script db_script response_script =
     \<lparr> sql_send = (\<lambda>tr prompt. scripted sql_script (length (sql_requests tr))),
       db_fetch = (\<lambda>tr query. scripted db_script (length (executed tr))),
       dumps = (\<lambda>rows. Inr ''[[5]]''),
       resp_send = (\<lambda>tr prompt. scripted response_script (length (response_requests tr))),
       loads = decode_object,
       exc_str = describe \<rparr>"

definition prose :: "exn + string" where
  "prose = Inr ''Here is the query you asked for.''"

definition directive :: "exn + string" where
  "directive = Inr ''```json {\"sqlQuery\": \"SELECT COUNT(*) FROM employees\", \"description\": \"count\"} ```''"

definition bare_directive :: "exn + string" where
  "bare_directive = Inr ''{\"sqlQuery\": \"SELECT COUNT(*) FROM employees\"}''"

definition recount_directive :: "exn + string" where
  "recount_directive = Inr ''{\"sqlQuery\": \"SELECT COUNT(emp_no) FROM employees\", \"description\": \"count again\"}''"

definition no_query :: "exn + string" where
  "no_query = Inr ''{\"description\": \"count\"}''"

definition answer :: "exn + string" where
  "answer = Inr ''``` {\"message\": \"There are 5 employees.\"} ```''"

definition no_message :: "exn + string" where
  "no_message = Inr ''{\"text\": \"There are 5 employees.\"}''"

definition count_rows :: "exn + sqlval list list" where
  "count_rows = Inr [[SqlInt 5]]"

section \<open>Facts about the string operations\<close>

lemma pieces_not_Nil: "pieces sep s \<noteq> []"
  by (induction s) (auto split: list.splits)

lemma contains_Nil_sep: "contains [] s"
  by (cases s) auto

lemma prefix_before: "prefix (before sep s) s"
  by (induction s) auto

lemma before_no_occurrence: "\<not> contains sep s \<Longrightarrow> before sep s = s"
  by (induction s) auto

lemma before_free: "sep \<noteq> [] \<Longrightarrow> \<not> contains sep (before sep s)"
proof (induction s)
  case Nil
  then show ?case by simp
next
  case (Cons c cs)
  show ?case
  proof (cases "prefix sep (c # cs)")
    case True
    with Cons.prems show ?thesis by simp
  next
    case False
    have "prefix (c # before sep cs) (c # cs)"
      using prefix_before [of sep cs] by simp
    with False have "\<not> prefix sep (c # before sep cs)"
      using prefix_order.trans by blast
    with False Cons show ?thesis by simp
  qed
qed

lemma before_idem: "sep \<noteq> [] \<Longrightarrow> before sep (before sep s) = before sep s"
  by (simp add: before_free before_no_occurrence)

lemma pieces_no_occurrence: "\<not> contains sep s \<Longrightarrow> pieces sep s = [s]"
  by (induction s) (auto split: list.splits)

lemma pieces_occurrence:
  "sep \<noteq> [] \<Longrightarrow> contains sep s \<Longrightarrow> pieces sep s = before sep s # pieces sep (after sep s)"
proof (induction s)
  case Nil
  then show ?case by simp
next
  case (Cons c cs)
  show ?case
  proof (cases "prefix sep (c # cs)")
    case True
    from Cons.prems(1) obtain n where "length sep = Suc n"
      by (cases sep) auto
    with True show ?thesis by simp
  next
    case False
    with Cons.prems have "contains sep cs" by simp
    with Cons.IH Cons.prems(1) have "pieces sep cs = before sep cs # pieces sep (after sep cs)"
      by simp
    with False show ?thesis by simp
  qed
qed

lemma pieces_first: "pieces sep s ! 0 = before sep s"
proof (cases "contains sep s")
  case True
  show ?thesis
  proof (cases "sep = []")
    case True
    then show ?thesis by (cases s) auto
  next
    case False
    with True show ?thesis by (simp add: pieces_occurrence)
  qed
next
  case False
  then show ?thesis by (simp add: pieces_no_occurrence before_no_occurrence)
qed

lemma pieces_second:
  assumes "sep \<noteq> []" and "contains sep s"
  shows "1 < length (pieces sep s)" and "pieces sep s ! 1 = before sep (after sep s)"
proof -
  have eq: "pieces sep s = before sep s # pieces sep (after sep s)"
    using assms by (rule pieces_occurrence)
  have "0 < length (pieces sep (after sep s))"
    using pieces_not_Nil [of sep "after sep s"] by simp
  with eq show "1 < length (pieces sep s)" by simp
  from eq show "pieces sep s ! 1 = before sep (after sep s)"
    by (simp add: pieces_first)
qed

lemma fence_nonempty: "fence \<noteq> []" "fence_json \<noteq> []"
  by (simp_all add: fence_def fence_json_def)

lemma between_eq:
  assumes "opening \<noteq> []" and "contains opening text"
  shows "between text opening = Inr (before fence (before opening (after opening text)))"
proof -
  have "0 < length (pieces fence (before opening (after opening text)))"
    using pieces_not_Nil [of fence] by simp
  then show ?thesis
    using assms pieces_second [OF assms] fence_nonempty
    by (simp add: between_def split_py_def index_py_def pieces_first)
qed

lemma json_text_of_eq: "json_text_of text = Inr (strip (candidate_text text))"
  by (simp add: json_text_of_def candidate_text_def between_eq fence_nonempty before_idem)

lemma extract_direct: "decode text = Inr v \<Longrightarrow> extract_json_from_response decode text = Inr v"
  by (simp add: extract_json_from_response_def)

lemma extract_fallback:
  "decode text = Inl (JSONDecodeError m) \<Longrightarrow>
   extract_json_from_response decode text = decode (strip (candidate_text text))"
  by (simp add: extract_json_from_response_def json_text_of_eq)

lemma prefix_fence_json: "prefix fence_json s \<Longrightarrow> prefix fence s"
  by (auto simp: fence_def fence_json_def prefix_def)

lemma contains_fence_json: "contains fence_json s \<Longrightarrow> contains fence s"
  by (induction s) (auto simp: fence_nonempty dest: prefix_fence_json)

lemma candidate_unclosed:
  assumes "contains fence_json text" and "\<not> contains fence (after fence_json text)"
  shows "candidate_text text = after fence_json text"
proof -
  from assms(2) have "\<not> contains fence_json (after fence_json text)"
    using contains_fence_json by blast
  with assms show ?thesis
    by (simp add: candidate_text_def before_no_occurrence)
qed

lemma char_eq_code_point: "c = d \<longleftrightarrow> (of_char c :: nat) = of_char d"
  by simp

lemma is_space_code_points:
  "is_space c \<longleftrightarrow> (of_char c :: nat) \<in> {9, 10, 11, 12, 13, 28, 29, 30, 31, 32, 133, 160}"
  by (simp add: is_space_def char_eq_code_point [of c])

lemma strip_remainder:
  "dropWhile is_space s = strip s @ rev (takeWhile is_space (rev (dropWhile is_space s)))"
  unfolding strip_def
  by (metis rev_append rev_rev_ident takeWhile_dropWhile_id)

lemma strip_decomposition:
  "\<exists>l r. s = l @ strip s @ r \<and> list_all is_space l \<and> list_all is_space r"
proof -
  let ?d = "dropWhile is_space s"
  let ?l = "takeWhile is_space s"
  let ?r = "rev (takeWhile is_space (rev ?d))"
  have "s = ?l @ ?d" by simp
  with strip_remainder [of s] have "s = ?l @ strip s @ ?r" by simp
  moreover have "list_all is_space ?l"
    by (simp add: list_all_iff) (meson set_takeWhileD)
  moreover have "list_all is_space ?r"
    by (simp add: list_all_iff) (meson set_takeWhileD)
  ultimately show ?thesis by blast
qed

lemma strip_ends:
  assumes "strip s \<noteq> []"
  shows "\<not> is_space (hd (strip s))" and "\<not> is_space (last (strip s))"
proof -
  let ?d = "dropWhile is_space s"
  let ?e = "dropWhile is_space (rev ?d)"
  from assms have e: "?e \<noteq> []" by (simp add: strip_def)
  then have "\<not> is_space (hd ?e)" by (rule hd_dropWhile)
  with e show "\<not> is_space (last (strip s))"
    by (simp add: strip_def last_rev)
  from e have d: "?d \<noteq> []"
    by (metis dropWhile.simps(1) rev_is_Nil_conv)
  then have nd: "\<not> is_space (hd ?d)" by (rule hd_dropWhile)
  from strip_remainder [of s] assms have "hd ?d = hd (strip s)"
    by (metis hd_append2)
  with nd show "\<not> is_space (hd (strip s))" by simp
qed

section \<open>Facts about one attempt and about the loop\<close>

lemma run_attempt_sql_failure:
  "sql_stage env q tr = Inl e \<Longrightarrow>
   run_attempt env q tr = (Inl e, tr @ [SqlSend (sql_prompt q)])"
  by (simp add: run_attempt_def)

lemma run_attempt_success:
  assumes "run_attempt env q tr = (Inr m, tr')"
  shows "\<exists>query dataText.
           sql_stage env q tr = Inr (JStr query) \<and>
           execute_stage env (tr @ [SqlSend (sql_prompt q)]) query = Inr dataText \<and>
           answer_stage env q (tr @ [SqlSend (sql_prompt q), Execute query]) dataText = Inr m \<and>
           tr' = tr @ [SqlSend (sql_prompt q), Execute query,
                       RespSend (response_prompt q dataText)]"
  using assms
  by (auto simp: run_attempt_def Let_def split: sum.splits json.splits)

lemma run_attempt_later_failure:
  assumes "sql_stage env q tr = Inr (JStr query)" and "run_attempt env q tr = (Inl e, tr')"
  shows "tr' = tr @ [SqlSend (sql_prompt q), Execute query] \<or>
         (\<exists>dataText. tr' = tr @ [SqlSend (sql_prompt q), Execute query,
                                  RespSend (response_prompt q dataText)])"
  using assms
  by (auto simp: run_attempt_def Let_def split: sum.splits)

lemma run_attempt_begins:
  "\<exists>evs. snd (run_attempt env q tr) = tr @ SqlSend (sql_prompt q) # evs"
  by (auto simp: run_attempt_def Let_def split: sum.splits json.splits)

lemma run_attempt_executes_fresh:
  assumes "snd (run_attempt env q tr) = tr @ SqlSend p # Execute query # evs"
  shows "sql_stage env q tr = Inr (JStr query)"
  using assms
  by (auto simp: run_attempt_def Let_def split: sum.splits json.splits)

lemma ask_loop_retry:
  "run_attempt env q tr = (Inl e, tr') \<Longrightarrow> attempt < tries - 1 \<Longrightarrow>
   ask_loop env q tr (attempt # rest) = ask_loop env q (tr' @ [Sleep (2 * (attempt + 1))]) rest"
  by simp

lemma ask_loop_give_up:
  "run_attempt env q tr = (Inl e, tr') \<Longrightarrow> \<not> attempt < tries - 1 \<Longrightarrow>
   ask_loop env q tr (attempt # rest) = (PairWithNone (failure_text env e), tr')"
  by simp

lemma ask_loop_return:
  "run_attempt env q tr = (Inr m, tr') \<Longrightarrow>
   ask_loop env q tr (attempt # rest) = (Value m, tr')"
  by simp

lemma ask_loop_extends: "\<exists>evs. snd (ask_loop env q tr attempts) = tr @ evs"
proof (induction attempts arbitrary: tr)
  case Nil
  show ?case by simp
next
  case (Cons a rest)
  obtain r tr' where ra: "run_attempt env q tr = (r, tr')"
    by (cases "run_attempt env q tr")
  from run_attempt_begins [of env q tr] ra obtain evs where tr': "tr' = tr @ SqlSend (sql_prompt q) # evs"
    by auto
  show ?case
  proof (cases r)
    case (Inr m)
    with ra tr' show ?thesis by simp
  next
    case (Inl e)
    show ?thesis
    proof (cases "a < tries - 1")
      case False
      with ra Inl tr' show ?thesis by simp
    next
      case True
      from Cons.IH [of "tr' @ [Sleep (2 * (a + 1))]"] obtain evs' where
        "snd (ask_loop env q (tr' @ [Sleep (2 * (a + 1))]) rest) = (tr' @ [Sleep (2 * (a + 1))]) @ evs'"
        by blast
      with ra Inl True tr' show ?thesis by simp
    qed
  qed
qed

lemma ask_loop_begins:
  "\<exists>evs. snd (ask_loop env q tr (a # rest)) = snd (run_attempt env q tr) @ evs"
proof -
  obtain r tr' where ra: "run_attempt env q tr = (r, tr')"
    by (cases "run_attempt env q tr")
  show ?thesis
  proof (cases r)
    case (Inr m)
    with ra show ?thesis by simp
  next
    case (Inl e)
    show ?thesis
    proof (cases "a < tries - 1")
      case False
      with ra Inl show ?thesis by simp
    next
      case True
      from ask_loop_extends [of env q "tr' @ [Sleep (2 * (a + 1))]" rest] obtain evs' where
        "snd (ask_loop env q (tr' @ [Sleep (2 * (a + 1))]) rest) = (tr' @ [Sleep (2 * (a + 1))]) @ evs'"
        by blast
      with ra Inl True show ?thesis by simp
    qed
  qed
qed

lemma ask_loop_value:
  "ask_loop env q tr attempts = (Value m, tr') \<Longrightarrow>
   \<exists>pre. prefix tr pre \<and> run_attempt env q pre = (Inr m, tr')"
proof (induction attempts arbitrary: tr)
  case Nil
  then show ?case by simp
next
  case (Cons a rest)
  obtain r tr1 where ra: "run_attempt env q tr = (r, tr1)"
    by (cases "run_attempt env q tr")
  show ?case
  proof (cases r)
    case (Inr m')
    with ra Cons.prems have "m' = m" "tr1 = tr'" by simp_all
    with ra Inr show ?thesis by auto
  next
    case (Inl e)
    show ?thesis
    proof (cases "a < tries - 1")
      case False
      with ra Inl Cons.prems show ?thesis by simp
    next
      case True
      with ra Inl Cons.prems
      have "ask_loop env q (tr1 @ [Sleep (2 * (a + 1))]) rest = (Value m, tr')" by simp
      from Cons.IH [OF this] obtain pre where
        pre: "prefix (tr1 @ [Sleep (2 * (a + 1))]) pre" "run_attempt env q pre = (Inr m, tr')"
        by blast
      from run_attempt_begins [of env q tr] ra have "prefix tr tr1"
        by auto
      with pre(1) have "prefix tr pre"
        by (meson prefix_order.trans prefixI)
      with pre(2) show ?thesis by blast
    qed
  qed
qed

lemma attempts_of_ask: "[0..<tries] = [0, 1, 2, 3]"
  by (simp add: tries_def upt_rec)

section \<open>Facts about the validator\<close>

lemma no_errors_iff_valid:
  "(iter_errors sch v = [] \<longleftrightarrow> valid sch v)"
  "(property_errors props kvs = [] \<longleftrightarrow> valid_properties props kvs)"
proof (induction sch v and props kvs rule: valid_valid_properties.induct)
  case (1 ty props req v)
  then show ?case
    by (cases v) (auto simp: list_all_iff filter_empty_conv)
next
  case (2 kvs)
  show ?case by simp
next
  case (3 k sub props kvs)
  then show ?case
    by (auto split: option.splits)
qed

lemma validate_cases:
  "validate v sch = (if valid sch v then Inr () else Inl (ValidationError (iter_errors sch v)))"
  using no_errors_iff_valid(1) [of sch v]
  by (cases "iter_errors sch v") (simp_all add: validate_def)

lemma validate_raises:
  "validate v sch \<noteq> Inr () \<Longrightarrow>
   \<exists>e es. iter_errors sch v = e # es \<and> validate v sch = Inl (ValidationError (e # es))"
  by (cases "iter_errors sch v") (simp_all add: validate_def)

lemma valid_string_schema: "valid (Schema (Some TString) [] []) v \<longleftrightarrow> (\<exists>s. v = JStr s)"
  by (cases v) simp_all

lemma valid_object:
  "valid (Schema (Some TObject) props req) (JObj kvs) \<longleftrightarrow>
     valid_properties props kvs \<and> list_all (\<lambda>k. map_of kvs k \<noteq> None) req"
  by simp

lemma valid_sql_schema:
  "valid sql_schema v \<longleftrightarrow>
     (\<exists>kvs query. v = JObj kvs \<and> map_of kvs ''sqlQuery'' = Some (JStr query) \<and>
        (\<forall>d. map_of kvs ''description'' = Some d \<longrightarrow> (\<exists>s. d = JStr s)))"
proof (cases v)
  case (JObj kvs)
  have "valid sql_schema (JObj kvs) \<longleftrightarrow>
          (case map_of kvs ''sqlQuery'' of None \<Rightarrow> False | Some x \<Rightarrow> \<exists>s. x = JStr s) \<and>
          (case map_of kvs ''description'' of None \<Rightarrow> True | Some x \<Rightarrow> \<exists>s. x = JStr s)"
    unfolding sql_schema_def valid_object valid_properties.simps valid_string_schema
    by (auto split: option.splits)
  with JObj show ?thesis
    by (auto split: option.splits)
qed (simp_all add: sql_schema_def)

lemma valid_response_schema:
  "valid response_schema v \<longleftrightarrow> (\<exists>kvs message. v = JObj kvs \<and> map_of kvs ''message'' = Some (JStr message))"
proof (cases v)
  case (JObj kvs)
  have "valid response_schema (JObj kvs) \<longleftrightarrow>
          (case map_of kvs ''message'' of None \<Rightarrow> False | Some x \<Rightarrow> \<exists>s. x = JStr s)"
    unfolding response_schema_def valid_object valid_properties.simps valid_string_schema
    by (auto split: option.splits)
  with JObj show ?thesis
    by (auto split: option.splits)
qed (simp_all add: response_schema_def)

lemma validate_result: "validate v sch = Inr () \<longleftrightarrow> valid sch v"
  by (simp add: validate_cases)

lemma sql_stage_string:
  assumes "sql_stage env q tr = Inr v"
  shows "\<exists>query. v = JStr query"
  using assms
  by (auto simp: sql_stage_def validate_cases valid_sql_schema subscript_def
           split: sum.splits if_splits)

lemma answer_stage_string:
  assumes "answer_stage env q tr d = Inr v"
  shows "\<exists>message. v = JStr message"
  using assms
  by (auto simp: answer_stage_def validate_cases valid_response_schema subscript_def
           split: sum.splits if_splits)

lemma sql_stage_invalid:
  assumes "sql_send env tr (sql_prompt q) = Inr sql_text"
    and "extract_json_from_response (loads env) sql_text = Inr v"
    and "\<not> valid sql_schema v"
  shows "sql_stage env q tr = Inl (ValidationError (iter_errors sql_schema v))"
  using assms by (simp add: sql_stage_def validate_cases)

lemma answer_stage_invalid:
  assumes "resp_send env tr (response_prompt q dataText) = Inr response_text"
    and "extract_json_from_response (loads env) response_text = Inr v"
    and "\<not> valid response_schema v"
  shows "answer_stage env q tr dataText = Inl (ValidationError (iter_errors response_schema v))"
  using assms by (simp add: answer_stage_def validate_cases)

lemma run_attempt_answer_failure:
  assumes "sql_stage env q tr = Inr (JStr query)"
    and "execute_stage env (tr @ [SqlSend (sql_prompt q)]) query = Inr dataText"
    and "answer_stage env q (tr @ [SqlSend (sql_prompt q), Execute query]) dataText = Inl e"
  shows "run_attempt env q tr =
           (Inl e, tr @ [SqlSend (sql_prompt q), Execute query,
                         RespSend (response_prompt q dataText)])"
  using assms by (simp add: run_attempt_def)

lemma ask_loop_after_attempt:
  "snd (ask_loop env q tr (a # rest)) = snd (run_attempt env q tr) \<or>
   (\<exists>evs. snd (ask_loop env q tr (a # rest))
            = snd (run_attempt env q tr) @ Sleep (2 * (a + 1)) # evs)"
proof -
  obtain r tr' where ra: "run_attempt env q tr = (r, tr')"
    by (cases "run_attempt env q tr")
  show ?thesis
  proof (cases r)
    case (Inr m)
    with ra show ?thesis by simp
  next
    case (Inl e)
    show ?thesis
    proof (cases "a < tries - 1")
      case False
      with ra Inl show ?thesis by simp
    next
      case True
      from ask_loop_extends [of env q "tr' @ [Sleep (2 * (a + 1))]" rest] obtain evs' where
        "snd (ask_loop env q (tr' @ [Sleep (2 * (a + 1))]) rest) = (tr' @ [Sleep (2 * (a + 1))]) @ evs'"
        by blast
      with ra Inl True show ?thesis by simp
    qed
  qed
qed

lemma sql_stage_success:
  assumes "sql_stage env q tr = Inr v"
  shows "\<exists>sql_text sql_json.
           sql_send env tr (sql_prompt q) = Inr sql_text \<and>
           extract_json_from_response (loads env) sql_text = Inr sql_json \<and>
           validate sql_json sql_schema = Inr () \<and>
           subscript sql_json ''sqlQuery'' = Inr v"
  using assms by (auto simp: sql_stage_def split: sum.splits)

lemma execute_stage_success:
  assumes "execute_stage env tr query = Inr dataText"
  shows "\<exists>data. db_fetch env tr query = Inr data \<and> dumps env data = Inr dataText"
  using assms by (auto simp: execute_stage_def split: sum.splits)

lemma answer_stage_success:
  assumes "answer_stage env q tr dataText = Inr v"
  shows "\<exists>response_text response_json.
           resp_send env tr (response_prompt q dataText) = Inr response_text \<and>
           extract_json_from_response (loads env) response_text = Inr response_json \<and>
           validate response_json response_schema = Inr () \<and>
           subscript response_json ''message'' = Inr v"
  using assms by (auto simp: answer_stage_def split: sum.splits)

lemma sql_stage_agree:
  assumes "replies_agree env (sql_send env tr (sql_prompt q)) (reply' tr (sql_prompt q))"
  shows "sql_stage (env\<lparr>sql_send := reply'\<rparr>) q tr = sql_stage env q tr"
proof (cases "sql_send env tr (sql_prompt q) = reply' tr (sql_prompt q)")
  case True
  then show ?thesis by (simp add: sql_stage_def cong: sum.case_cong)
next
  case False
  with assms obtain t t' v v' where
    r: "sql_send env tr (sql_prompt q) = Inr t" "reply' tr (sql_prompt q) = Inr t'"
    and d: "directive_of env t = Some v" "directive_of env t' = Some v'"
    and same: "same_but_description v v'"
    by (auto simp: replies_agree_def split: sum.splits option.splits)
  from d have ex: "extract_json_from_response (loads env) t = Inr v" "valid sql_schema v"
    "extract_json_from_response (loads env) t' = Inr v'" "valid sql_schema v'"
    by (auto simp: directive_of_def split: sum.splits if_splits)
  from same obtain kvs kvs' where
    obj: "v = JObj kvs" "v' = JObj kvs'"
    and eq: "map_of kvs ''sqlQuery'' = map_of kvs' ''sqlQuery''"
    by (auto simp: same_but_description_def split: json.splits)
  from r ex obj eq show ?thesis
    by (simp add: sql_stage_def validate_cases subscript_def cong: sum.case_cong)
qed

lemma execute_stage_other_sql:
  "execute_stage (env\<lparr>sql_send := reply'\<rparr>) tr query = execute_stage env tr query"
  by (simp add: execute_stage_def cong: sum.case_cong)

lemma answer_stage_other_sql:
  "answer_stage (env\<lparr>sql_send := reply'\<rparr>) q tr dataText = answer_stage env q tr dataText"
  by (simp add: answer_stage_def cong: sum.case_cong)

lemma run_attempt_agree:
  assumes "sql_stage (env\<lparr>sql_send := reply'\<rparr>) q tr = sql_stage env q tr"
  shows "run_attempt (env\<lparr>sql_send := reply'\<rparr>) q tr = run_attempt env q tr"
  using assms
  by (simp add: run_attempt_def execute_stage_other_sql answer_stage_other_sql Let_def
        cong: sum.case_cong json.case_cong)

lemma ask_loop_retry_events:
  assumes "run_attempt env q tr = (Inl e, tr')" and "attempt < tries - 1"
  shows "\<exists>evs. snd (ask_loop env q tr (attempt # next # rest))
                 = tr' @ [Sleep (2 * (attempt + 1)), SqlSend (sql_prompt q)] @ evs"
proof -
  let ?t = "tr' @ [Sleep (2 * (attempt + 1))]"
  have step: "ask_loop env q tr (attempt # next # rest) = ask_loop env q ?t (next # rest)"
    using assms by (rule ask_loop_retry)
  from run_attempt_begins [of env q ?t] obtain evs1 where
    first: "snd (run_attempt env q ?t) = ?t @ SqlSend (sql_prompt q) # evs1"
    by blast
  from ask_loop_begins [of env q ?t "next" rest] obtain evs2 where
    loop: "snd (ask_loop env q ?t (next # rest)) = snd (run_attempt env q ?t) @ evs2"
    by blast
  from first loop have
    "snd (ask_loop env q ?t (next # rest)) = ?t @ SqlSend (sql_prompt q) # evs1 @ evs2"
    by (simp del: ask_loop.simps)
  with step show ?thesis
    by (simp del: ask_loop.simps)
qed

lemma ask_three_retries:
  assumes "run_attempt env q tr = (Inl e1, t1)"
    and "run_attempt env q (t1 @ [Sleep 2]) = (Inl e2, t2)"
    and "run_attempt env q (t2 @ [Sleep 4]) = (Inl e3, t3)"
  shows "ask env q tr = ask_loop env q (t3 @ [Sleep 6]) [3]"
  using assms unfolding ask_def attempts_of_ask by (simp add: tries_def)

lemma sleeps_append: "sleeps (xs @ ys) = sleeps xs @ sleeps ys"
  by (induction xs rule: sleeps.induct) simp_all

lemma executed_append: "executed (xs @ ys) = executed xs @ executed ys"
  by (induction xs rule: executed.induct) simp_all

lemma sql_requests_append: "sql_requests (xs @ ys) = sql_requests xs @ sql_requests ys"
  by (induction xs rule: sql_requests.induct) simp_all

section \<open>Evaluation of the scenarios\<close>

lemmas scenario_eval =
  scenario_def scripted_def sql_stage_def execute_stage_def answer_stage_def run_attempt_def
  extract_json_from_response_def json_text_of_def between_def split_py_def index_py_def
  strip_def is_space_def fence_def fence_json_def decode_object_def token_def json_ws_def
  validate_cases sql_schema_def response_schema_def subscript_def prose_def directive_def
  bare_directive_def recount_directive_def no_query_def answer_def no_message_def count_rows_def Let_def

section \<open>The claims\<close>

text \<open>
  C1. When the SQL stage fails on attempts 1, 2 and 3 and attempt 4 succeeds, \<open>ask\<close>
  returns the message of attempt 4, a string; the events it adds hold exactly the sleeps
  of 2, 4 and 6 seconds, in that order, and exactly four requests to the SQL session.
\<close>

theorem backoff_2_4_6_then_answer:
  assumes "sql_stage env q tr = Inl e1"
    and "sql_stage env q (tr @ [SqlSend (sql_prompt q), Sleep 2]) = Inl e2"
    and "sql_stage env q (tr @ [SqlSend (sql_prompt q), Sleep 2,
                                SqlSend (sql_prompt q), Sleep 4]) = Inl e3"
    and "run_attempt env q (tr @ [SqlSend (sql_prompt q), Sleep 2,
                                  SqlSend (sql_prompt q), Sleep 4,
                                  SqlSend (sql_prompt q), Sleep 6]) = (Inr m, tr')"
  shows "ask env q tr = (Value m, tr') \<and>
         (\<exists>message. m = JStr message) \<and>
         sleeps (drop (length tr) tr') = [2, 4, 6] \<and>
         length (sql_requests (drop (length tr) tr')) = 4"
proof -
  let ?p = "SqlSend (sql_prompt q)"
  let ?t4 = "tr @ [?p, Sleep 2, ?p, Sleep 4, ?p, Sleep 6]"
  have r1: "run_attempt env q tr = (Inl e1, tr @ [?p])"
    using assms(1) by (rule run_attempt_sql_failure)
  have r2: "run_attempt env q ((tr @ [?p]) @ [Sleep 2]) = (Inl e2, tr @ [?p, Sleep 2, ?p])"
    using run_attempt_sql_failure [OF assms(2)] by simp
  have r3: "run_attempt env q ((tr @ [?p, Sleep 2, ?p]) @ [Sleep 4])
              = (Inl e3, tr @ [?p, Sleep 2, ?p, Sleep 4, ?p])"
    using run_attempt_sql_failure [OF assms(3)] by simp
  have "ask env q tr = ask_loop env q ((tr @ [?p, Sleep 2, ?p, Sleep 4, ?p]) @ [Sleep 6]) [3]"
    using r1 r2 r3 by (rule ask_three_retries)
  then have res: "ask env q tr = (Value m, tr')"
    using assms(4) by simp
  from run_attempt_success [OF assms(4)] obtain query dataText where
    ans: "answer_stage env q (?t4 @ [?p, Execute query]) dataText = Inr m"
    and tr': "tr' = ?t4 @ [?p, Execute query, RespSend (response_prompt q dataText)]"
    by auto
  from answer_stage_string [OF ans] have str: "\<exists>message. m = JStr message" .
  from tr' have "drop (length tr) tr' =
      [?p, Sleep 2, ?p, Sleep 4, ?p, Sleep 6, ?p, Execute query,
       RespSend (response_prompt q dataText)]"
    by simp
  then have "sleeps (drop (length tr) tr') = [2, 4, 6]"
    and "length (sql_requests (drop (length tr) tr')) = 4"
    by simp_all
  with res str show ?thesis by simp
qed

theorem backoff_2_4_6_then_answer_witness:
  "ask (scenario [prose, prose, prose, directive] [count_rows] [answer]) ''How many?'' []
     = (Value (JStr ''There are 5 employees.''),
        [SqlSend (sql_prompt ''How many?''), Sleep 2,
         SqlSend (sql_prompt ''How many?''), Sleep 4,
         SqlSend (sql_prompt ''How many?''), Sleep 6,
         SqlSend (sql_prompt ''How many?''),
         Execute ''SELECT COUNT(*) FROM employees'',
         RespSend (response_prompt ''How many?'' ''[[5]]'')])"
proof -
  let ?env = "scenario [prose, prose, prose, directive] [count_rows] [answer]"
  let ?p = "SqlSend (sql_prompt ''How many?'')"
  have h1: "sql_stage ?env ''How many?'' [] = Inl (JSONDecodeError ''Expecting value'')"
    by (simp add: scenario_eval)
  have h2: "sql_stage ?env ''How many?'' ([] @ [?p, Sleep 2]) = Inl (JSONDecodeError ''Expecting value'')"
    by (simp add: scenario_eval)
  have h3: "sql_stage ?env ''How many?'' ([] @ [?p, Sleep 2, ?p, Sleep 4])
              = Inl (JSONDecodeError ''Expecting value'')"
    by (simp add: scenario_eval)
  have h4: "run_attempt ?env ''How many?'' ([] @ [?p, Sleep 2, ?p, Sleep 4, ?p, Sleep 6])
              = (Inr (JStr ''There are 5 employees.''),
                 [?p, Sleep 2, ?p, Sleep 4, ?p, Sleep 6, ?p,
                  Execute ''SELECT COUNT(*) FROM employees'',
                  RespSend (response_prompt ''How many?'' ''[[5]]'')])"
    by (simp add: scenario_eval)
  from backoff_2_4_6_then_answer [OF h1 h2 h3 h4] show ?thesis by simp
qed

text \<open>
  C2. When all four attempts fail, \<open>ask\<close> returns the pair of the text
  \<^verbatim>\<open>Sorry, I encountered an error: \<close> followed by the description of the last exception,
  and \<^verbatim>\<open>None\<close>; it does not return a string.
\<close>

theorem exhausted_attempts_return_pair:
  assumes "run_attempt env q tr = (Inl e1, t1)"
    and "run_attempt env q (t1 @ [Sleep 2]) = (Inl e2, t2)"
    and "run_attempt env q (t2 @ [Sleep 4]) = (Inl e3, t3)"
    and "run_attempt env q (t3 @ [Sleep 6]) = (Inl e4, t4)"
  shows "ask env q tr = (PairWithNone (''Sorry, I encountered an error: '' @ exc_str env e4), t4) \<and>
         (\<forall>v. fst (ask env q tr) \<noteq> Value v)"
proof -
  have "ask env q tr = ask_loop env q (t3 @ [Sleep 6]) [3]"
    using assms(1-3) by (rule ask_three_retries)
  with assms(4) show ?thesis
    by (simp add: tries_def failure_text_def)
qed

theorem exhausted_attempts_return_pair_witness:
  "ask (scenario [prose, no_query, directive, directive]
          [Inl (Raised ''database is locked''), count_rows] [no_message]) ''How many?'' []
     = (PairWithNone ''Sorry, I encountered an error: instance rejected by the schema'',
        [SqlSend (sql_prompt ''How many?''), Sleep 2,
         SqlSend (sql_prompt ''How many?''), Sleep 4,
         SqlSend (sql_prompt ''How many?''), Execute ''SELECT COUNT(*) FROM employees'', Sleep 6,
         SqlSend (sql_prompt ''How many?''), Execute ''SELECT COUNT(*) FROM employees'',
         RespSend (response_prompt ''How many?'' ''[[5]]'')])"
proof -
  let ?env = "scenario [prose, no_query, directive, directive]
                [Inl (Raised ''database is locked''), count_rows] [no_message]"
  let ?p = "SqlSend (sql_prompt ''How many?'')"
  let ?x = "Execute ''SELECT COUNT(*) FROM employees''"
  have h1: "run_attempt ?env ''How many?'' [] = (Inl (JSONDecodeError ''Expecting value''), [?p])"
    by (simp add: scenario_eval)
  have h2: "run_attempt ?env ''How many?'' ([?p] @ [Sleep 2])
              = (Inl (ValidationError
                        [Violation [] ''required'' (JObj [(''description'', JStr ''count'')])]),
                 [?p, Sleep 2, ?p])"
    by (simp add: scenario_eval)
  have h3: "run_attempt ?env ''How many?'' ([?p, Sleep 2, ?p] @ [Sleep 4])
              = (Inl (Raised ''database is locked''), [?p, Sleep 2, ?p, Sleep 4, ?p, ?x])"
    by (simp add: scenario_eval)
  have h4: "run_attempt ?env ''How many?'' ([?p, Sleep 2, ?p, Sleep 4, ?p, ?x] @ [Sleep 6])
              = (Inl (ValidationError
                        [Violation [] ''required''
                           (JObj [(''text'', JStr ''There are 5 employees.'')])]),
                 [?p, Sleep 2, ?p, Sleep 4, ?p, ?x, Sleep 6, ?p, ?x,
                  RespSend (response_prompt ''How many?'' ''[[5]]'')])"
    by (simp add: scenario_eval)
  from exhausted_attempts_return_pair [OF h1 h2 h3 h4] show ?thesis
    by (simp add: scenario_def)
qed

text \<open>
  C3. The reply \<^verbatim>\<open>```json{}````json\<close> does not decode as a whole and holds a \<^verbatim>\<open>```json\<close>
  marker; the text between the first such marker and the next \<^verbatim>\<open>```\<close> marker is \<^verbatim>\<open>{}\<close>,
  which decodes to the empty object. The extractor takes \<^verbatim>\<open>{}`\<close> instead, because it cuts
  at the second \<^verbatim>\<open>```json\<close> marker before it looks for \<^verbatim>\<open>```\<close>, and raises the decode
  error of that text. The same holds when no-break spaces surround the object: the
  leading one is stripped, the one before the back-tick that is left over is not.
\<close>

theorem json_fence_cut_at_second_tag:
  "contains fence_json ''```json{}````json'' \<and>
   decode_object ''```json{}````json'' = Inl (JSONDecodeError ''Expecting value'') \<and>
   candidate_as_specified ''```json{}````json'' = ''{}'' \<and>
   decode_object (strip (candidate_as_specified ''```json{}````json'')) = Inr (JObj []) \<and>
   json_text_of ''```json{}````json'' = Inr ''{}`'' \<and>
   extract_json_from_response decode_object ''```json{}````json''
     = Inl (JSONDecodeError ''Extra data'') \<and>
   contains fence_json (''```json'' @ [CHR 0xA0] @ ''{}'' @ [CHR 0xA0] @ ''````json'') \<and>
   decode_object (''```json'' @ [CHR 0xA0] @ ''{}'' @ [CHR 0xA0] @ ''````json'')
     = Inl (JSONDecodeError ''Expecting value'') \<and>
   candidate_as_specified (''```json'' @ [CHR 0xA0] @ ''{}'' @ [CHR 0xA0] @ ''````json'')
     = [CHR 0xA0] @ ''{}'' @ [CHR 0xA0] \<and>
   decode_object
     (strip (candidate_as_specified (''```json'' @ [CHR 0xA0] @ ''{}'' @ [CHR 0xA0] @ ''````json'')))
     = Inr (JObj []) \<and>
   json_text_of (''```json'' @ [CHR 0xA0] @ ''{}'' @ [CHR 0xA0] @ ''````json'')
     = Inr (''{}'' @ [CHR 0xA0] @ ''`'') \<and>
   extract_json_from_response decode_object
     (''```json'' @ [CHR 0xA0] @ ''{}'' @ [CHR 0xA0] @ ''````json'')
     = Inl (JSONDecodeError ''Extra data'')"
  by (simp add: fence_json_def fence_def candidate_as_specified_def strip_def is_space_def
        decode_object_def token_def json_ws_def extract_json_from_response_def
        json_text_of_def between_def split_py_def index_py_def)

text \<open>
  C4. When the SQL stage fails on each of the four attempts, \<open>ask\<close> adds only the four
  requests to the SQL session and the three sleeps to the events: nothing is executed.
  What it returns is the pair of the failure text and \<^verbatim>\<open>None\<close>.
\<close>

theorem sql_stage_exhausted_executes_nothing:
  assumes "sql_stage env q tr = Inl e1"
    and "sql_stage env q (tr @ [SqlSend (sql_prompt q), Sleep 2]) = Inl e2"
    and "sql_stage env q (tr @ [SqlSend (sql_prompt q), Sleep 2,
                                SqlSend (sql_prompt q), Sleep 4]) = Inl e3"
    and "sql_stage env q (tr @ [SqlSend (sql_prompt q), Sleep 2,
                                SqlSend (sql_prompt q), Sleep 4,
                                SqlSend (sql_prompt q), Sleep 6]) = Inl e4"
  shows "ask env q tr =
           (PairWithNone (failure_text env e4),
            tr @ [SqlSend (sql_prompt q), Sleep 2, SqlSend (sql_prompt q), Sleep 4,
                  SqlSend (sql_prompt q), Sleep 6, SqlSend (sql_prompt q)]) \<and>
         executed (drop (length tr) (snd (ask env q tr))) = []"
proof -
  let ?p = "SqlSend (sql_prompt q)"
  have r1: "run_attempt env q tr = (Inl e1, tr @ [?p])"
    using assms(1) by (rule run_attempt_sql_failure)
  have r2: "run_attempt env q ((tr @ [?p]) @ [Sleep 2]) = (Inl e2, tr @ [?p, Sleep 2, ?p])"
    using run_attempt_sql_failure [OF assms(2)] by simp
  have r3: "run_attempt env q ((tr @ [?p, Sleep 2, ?p]) @ [Sleep 4])
              = (Inl e3, tr @ [?p, Sleep 2, ?p, Sleep 4, ?p])"
    using run_attempt_sql_failure [OF assms(3)] by simp
  have r4: "run_attempt env q ((tr @ [?p, Sleep 2, ?p, Sleep 4, ?p]) @ [Sleep 6])
              = (Inl e4, tr @ [?p, Sleep 2, ?p, Sleep 4, ?p, Sleep 6, ?p])"
    using run_attempt_sql_failure [OF assms(4)] by simp
  have "ask env q tr = ask_loop env q ((tr @ [?p, Sleep 2, ?p, Sleep 4, ?p]) @ [Sleep 6]) [3]"
    using r1 r2 r3 by (rule ask_three_retries)
  with r4 have "ask env q tr =
      (PairWithNone (failure_text env e4), tr @ [?p, Sleep 2, ?p, Sleep 4, ?p, Sleep 6, ?p])"
    by (simp add: tries_def)
  then show ?thesis by simp
qed

theorem sql_stage_exhausted_executes_nothing_witness:
  "ask (scenario [prose, no_query, prose, Inl (Raised ''service unavailable'')] [count_rows] [answer])
       ''How many?'' []
     = (PairWithNone ''Sorry, I encountered an error: service unavailable'',
        [SqlSend (sql_prompt ''How many?''), Sleep 2,
         SqlSend (sql_prompt ''How many?''), Sleep 4,
         SqlSend (sql_prompt ''How many?''), Sleep 6,
         SqlSend (sql_prompt ''How many?'')])"
proof -
  let ?env = "scenario [prose, no_query, prose, Inl (Raised ''service unavailable'')]
                [count_rows] [answer]"
  let ?p = "SqlSend (sql_prompt ''How many?'')"
  have h1: "sql_stage ?env ''How many?'' [] = Inl (JSONDecodeError ''Expecting value'')"
    by (simp add: scenario_eval)
  have h2: "sql_stage ?env ''How many?'' ([] @ [?p, Sleep 2])
              = Inl (ValidationError
                       [Violation [] ''required'' (JObj [(''description'', JStr ''count'')])])"
    by (simp add: scenario_eval)
  have h3: "sql_stage ?env ''How many?'' ([] @ [?p, Sleep 2, ?p, Sleep 4])
              = Inl (JSONDecodeError ''Expecting value'')"
    by (simp add: scenario_eval)
  have h4: "sql_stage ?env ''How many?'' ([] @ [?p, Sleep 2, ?p, Sleep 4, ?p, Sleep 6])
              = Inl (Raised ''service unavailable'')"
    by (simp add: scenario_eval)
  from sql_stage_exhausted_executes_nothing [OF h1 h2 h3 h4] show ?thesis
    by (simp add: failure_text_def scenario_def)
qed

text \<open>
  C5. The SQL schema accepts exactly the objects whose \<^verbatim>\<open>sqlQuery\<close> is a string and whose
  \<^verbatim>\<open>description\<close>, if present, is a string; the response schema accepts exactly the
  objects whose \<^verbatim>\<open>message\<close> is a string; on an instance that is not accepted \<^verbatim>\<open>validate\<close>
  raises a \<^verbatim>\<open>ValidationError\<close> that holds at least one error. When the SQL stage or the
  answer stage of an attempt that is not the last ends in such a rejection, \<open>ask\<close> does
  not return: it sleeps for twice the number of the attempt and then sends the request
  for the same question to the SQL session again, and what it returns in the end is what
  the attempts that are left return.
\<close>

theorem validation_contract_and_retry:
  "(validate v sql_schema = Inr () \<longleftrightarrow>
      (\<exists>kvs query. v = JObj kvs \<and> map_of kvs ''sqlQuery'' = Some (JStr query) \<and>
         (\<forall>d. map_of kvs ''description'' = Some d \<longrightarrow> (\<exists>s. d = JStr s)))) \<and>
   (validate v response_schema = Inr () \<longleftrightarrow>
      (\<exists>kvs message. v = JObj kvs \<and> map_of kvs ''message'' = Some (JStr message))) \<and>
   (validate v sch \<noteq> Inr () \<longrightarrow>
      (\<exists>e es. iter_errors sch v = e # es \<and> validate v sch = Inl (ValidationError (e # es)))) \<and>
   (sql_send env tr (sql_prompt q) = Inr sql_text \<longrightarrow>
    extract_json_from_response (loads env) sql_text = Inr sql_json \<longrightarrow>
    validate sql_json sql_schema \<noteq> Inr () \<longrightarrow> attempt < tries - 1 \<longrightarrow>
      ask_loop env q tr (attempt # rest) =
        ask_loop env q (tr @ [SqlSend (sql_prompt q), Sleep (2 * (attempt + 1))]) rest \<and>
      (\<exists>evs. snd (ask_loop env q tr (attempt # following # later)) =
               tr @ [SqlSend (sql_prompt q), Sleep (2 * (attempt + 1)),
                     SqlSend (sql_prompt q)] @ evs)) \<and>
   (sql_stage env q tr' = Inr (JStr query) \<longrightarrow>
    execute_stage env (tr' @ [SqlSend (sql_prompt q)]) query = Inr dataText \<longrightarrow>
    resp_send env (tr' @ [SqlSend (sql_prompt q), Execute query]) (response_prompt q dataText)
      = Inr response_text \<longrightarrow>
    extract_json_from_response (loads env) response_text = Inr response_json \<longrightarrow>
    validate response_json response_schema \<noteq> Inr () \<longrightarrow> attempt' < tries - 1 \<longrightarrow>
      ask_loop env q tr' (attempt' # rest') =
        ask_loop env q (tr' @ [SqlSend (sql_prompt q), Execute query,
                               RespSend (response_prompt q dataText),
                               Sleep (2 * (attempt' + 1))]) rest' \<and>
      (\<exists>evs. snd (ask_loop env q tr' (attempt' # following' # later')) =
               tr' @ [SqlSend (sql_prompt q), Execute query,
                      RespSend (response_prompt q dataText),
                      Sleep (2 * (attempt' + 1)), SqlSend (sql_prompt q)] @ evs))"
proof (intro conjI impI)
  show "validate v sql_schema = Inr () \<longleftrightarrow>
      (\<exists>kvs query. v = JObj kvs \<and> map_of kvs ''sqlQuery'' = Some (JStr query) \<and>
         (\<forall>d. map_of kvs ''description'' = Some d \<longrightarrow> (\<exists>s. d = JStr s)))"
    unfolding validate_result by (rule valid_sql_schema)
  show "validate v response_schema = Inr () \<longleftrightarrow>
      (\<exists>kvs message. v = JObj kvs \<and> map_of kvs ''message'' = Some (JStr message))"
    unfolding validate_result by (rule valid_response_schema)
  show "\<exists>e es. iter_errors sch v = e # es \<and> validate v sch = Inl (ValidationError (e # es))"
    if "validate v sch \<noteq> Inr ()"
    using that by (rule validate_raises)
next
  assume send: "sql_send env tr (sql_prompt q) = Inr sql_text"
    and ex: "extract_json_from_response (loads env) sql_text = Inr sql_json"
    and bad: "validate sql_json sql_schema \<noteq> Inr ()"
    and more: "attempt < tries - 1"
  from bad have "\<not> valid sql_schema sql_json" by (simp add: validate_result)
  with send ex have "sql_stage env q tr = Inl (ValidationError (iter_errors sql_schema sql_json))"
    by (rule sql_stage_invalid)
  then have run: "run_attempt env q tr =
      (Inl (ValidationError (iter_errors sql_schema sql_json)), tr @ [SqlSend (sql_prompt q)])"
    by (rule run_attempt_sql_failure)
  from ask_loop_retry [OF run more]
  show "ask_loop env q tr (attempt # rest) =
          ask_loop env q (tr @ [SqlSend (sql_prompt q), Sleep (2 * (attempt + 1))]) rest"
    by simp
  from ask_loop_retry_events [OF run more, of following later]
  show "\<exists>evs. snd (ask_loop env q tr (attempt # following # later)) =
               tr @ [SqlSend (sql_prompt q), Sleep (2 * (attempt + 1)),
                     SqlSend (sql_prompt q)] @ evs"
    by (simp del: ask_loop.simps)
next
  assume sql: "sql_stage env q tr' = Inr (JStr query)"
    and exec: "execute_stage env (tr' @ [SqlSend (sql_prompt q)]) query = Inr dataText"
    and send: "resp_send env (tr' @ [SqlSend (sql_prompt q), Execute query])
                 (response_prompt q dataText) = Inr response_text"
    and ex: "extract_json_from_response (loads env) response_text = Inr response_json"
    and bad: "validate response_json response_schema \<noteq> Inr ()"
    and more: "attempt' < tries - 1"
  from bad have "\<not> valid response_schema response_json" by (simp add: validate_result)
  with send ex
  have "answer_stage env q (tr' @ [SqlSend (sql_prompt q), Execute query]) dataText
          = Inl (ValidationError (iter_errors response_schema response_json))"
    by (rule answer_stage_invalid)
  with sql exec have run: "run_attempt env q tr' =
      (Inl (ValidationError (iter_errors response_schema response_json)),
       tr' @ [SqlSend (sql_prompt q), Execute query, RespSend (response_prompt q dataText)])"
    by (rule run_attempt_answer_failure)
  from ask_loop_retry [OF run more]
  show "ask_loop env q tr' (attempt' # rest') =
          ask_loop env q (tr' @ [SqlSend (sql_prompt q), Execute query,
                                 RespSend (response_prompt q dataText),
                                 Sleep (2 * (attempt' + 1))]) rest'"
    by simp
  from ask_loop_retry_events [OF run more, of following' later']
  show "\<exists>evs. snd (ask_loop env q tr' (attempt' # following' # later')) =
               tr' @ [SqlSend (sql_prompt q), Execute query,
                      RespSend (response_prompt q dataText),
                      Sleep (2 * (attempt' + 1)), SqlSend (sql_prompt q)] @ evs"
    by (simp del: ask_loop.simps)
qed

theorem validation_contract_and_retry_witness:
  "validate (JObj [(''description'', JStr ''count'')]) sql_schema
     = Inl (ValidationError
              [Violation [] ''required'' (JObj [(''description'', JStr ''count'')])]) \<and>
   validate (JObj [(''sqlQuery'', JInt 1), (''description'', JStr ''count'')]) sql_schema
     = Inl (ValidationError [Violation [''sqlQuery''] ''type'' (JInt 1)]) \<and>
   (\<exists>evs. snd (ask (scenario [no_query, directive, directive] [count_rows, count_rows]
                      [no_message, answer]) ''How many?'' [])
      = [SqlSend (sql_prompt ''How many?''), Sleep 2, SqlSend (sql_prompt ''How many?'')] @ evs) \<and>
   (\<exists>evs. snd (ask_loop (scenario [no_query, directive, directive] [count_rows, count_rows]
                      [no_message, answer]) ''How many?''
                  [SqlSend (sql_prompt ''How many?''), Sleep 2] [1, 2, 3])
      = [SqlSend (sql_prompt ''How many?''), Sleep 2,
         SqlSend (sql_prompt ''How many?''), Execute ''SELECT COUNT(*) FROM employees'',
         RespSend (response_prompt ''How many?'' ''[[5]]''), Sleep 4,
         SqlSend (sql_prompt ''How many?'')] @ evs) \<and>
   ask (scenario [no_query, directive, directive] [count_rows, count_rows] [no_message, answer])
       ''How many?'' []
     = ask_loop (scenario [no_query, directive, directive] [count_rows, count_rows]
                   [no_message, answer]) ''How many?''
         [SqlSend (sql_prompt ''How many?''), Sleep 2,
          SqlSend (sql_prompt ''How many?''), Execute ''SELECT COUNT(*) FROM employees'',
          RespSend (response_prompt ''How many?'' ''[[5]]''), Sleep 4] [2, 3]"
proof -
  let ?env = "scenario [no_query, directive, directive] [count_rows, count_rows] [no_message, answer]"
  let ?q = "''How many?''"
  let ?p = "SqlSend (sql_prompt ?q)"
  let ?x = "''SELECT COUNT(*) FROM employees''"
  let ?v = "JObj [(''description'', JStr ''count'')]"
  let ?w = "JObj [(''text'', JStr ''There are 5 employees.'')]"
  have v1: "validate ?v sql_schema = Inl (ValidationError [Violation [] ''required'' ?v])"
    by (simp add: validate_def sql_schema_def)
  have v2: "validate (JObj [(''sqlQuery'', JInt 1), (''description'', JStr ''count'')]) sql_schema
              = Inl (ValidationError [Violation [''sqlQuery''] ''type'' (JInt 1)])"
    by (simp add: validate_def sql_schema_def)
  have a1: "sql_send ?env [] (sql_prompt ?q) = Inr ''{\"description\": \"count\"}''"
    by (simp add: scenario_def scripted_def no_query_def)
  have a2: "extract_json_from_response (loads ?env) ''{\"description\": \"count\"}'' = Inr ?v"
    by (simp add: scenario_eval)
  have a3: "validate ?v sql_schema \<noteq> Inr ()"
    by (simp add: v1)
  have a4: "(0::nat) < tries - 1" "(1::nat) < tries - 1"
    by (simp_all add: tries_def)
  have b1: "sql_stage ?env ?q [?p, Sleep 2] = Inr (JStr ?x)"
    by (simp add: scenario_eval)
  have b2: "execute_stage ?env ([?p, Sleep 2] @ [?p]) ?x = Inr ''[[5]]''"
    by (simp add: scenario_eval)
  have b3: "resp_send ?env ([?p, Sleep 2] @ [?p, Execute ?x]) (response_prompt ?q ''[[5]]'')
              = Inr ''{\"text\": \"There are 5 employees.\"}''"
    by (simp add: scenario_def scripted_def no_message_def)
  have b4: "extract_json_from_response (loads ?env) ''{\"text\": \"There are 5 employees.\"}'' = Inr ?w"
    by (simp add: scenario_eval)
  have b5: "validate ?w response_schema \<noteq> Inr ()"
    by (simp add: validate_def response_schema_def)
  note inst = validation_contract_and_retry
         [where v = ?v and sch = sql_schema and env = ?env and q = ?q and tr = "[]"
            and sql_text = "''{\"description\": \"count\"}''" and sql_json = ?v
            and attempt = 0 and rest = "[1, 2, 3]" and following = 1 and later = "[2, 3]"
            and tr' = "[?p, Sleep 2]" and query = ?x and dataText = "''[[5]]''"
            and response_text = "''{\"text\": \"There are 5 employees.\"}''"
            and response_json = ?w and attempt' = 1 and rest' = "[2, 3]"
            and following' = 2 and later' = "[3]"]
  from inst a1 a2 a3 a4(1)
  have s1: "ask_loop ?env ?q [] [0, 1, 2, 3] = ask_loop ?env ?q ([] @ [?p, Sleep (2 * (0 + 1))]) [1, 2, 3]"
    and s2: "\<exists>evs. snd (ask_loop ?env ?q [] [0, 1, 2, 3])
                 = [] @ [?p, Sleep (2 * (0 + 1)), ?p] @ evs"
    by blast+
  from inst b1 b2 b3 b4 b5 a4(2)
  have t1: "ask_loop ?env ?q [?p, Sleep 2] [1, 2, 3]
       = ask_loop ?env ?q ([?p, Sleep 2] @ [?p, Execute ?x, RespSend (response_prompt ?q ''[[5]]''),
                           Sleep (2 * (1 + 1))]) [2, 3]"
    and t2: "\<exists>evs. snd (ask_loop ?env ?q [?p, Sleep 2] [1, 2, 3])
       = [?p, Sleep 2] @ [?p, Execute ?x, RespSend (response_prompt ?q ''[[5]]''),
                          Sleep (2 * (1 + 1)), ?p] @ evs"
    by blast+
  have ask: "ask ?env ?q [] = ask_loop ?env ?q [] [0, 1, 2, 3]"
    by (simp only: ask_def attempts_of_ask)
  from s1 t1 have chain: "ask_loop ?env ?q [] [0, 1, 2, 3]
       = ask_loop ?env ?q [?p, Sleep 2, ?p, Execute ?x, RespSend (response_prompt ?q ''[[5]]''),
                           Sleep 4] [2, 3]"
    by (simp del: ask_loop.simps)
  from s2 have s2': "\<exists>evs. snd (ask ?env ?q []) = [?p, Sleep 2, ?p] @ evs"
    unfolding ask by (simp del: ask_loop.simps)
  from t2 have t2': "\<exists>evs. snd (ask_loop ?env ?q [?p, Sleep 2] [1, 2, 3])
       = [?p, Sleep 2, ?p, Execute ?x, RespSend (response_prompt ?q ''[[5]]''), Sleep 4, ?p] @ evs"
    by (simp del: ask_loop.simps)
  from v1 v2 s2' t2' chain show ?thesis
    unfolding ask by (intro conjI)
qed

text \<open>
  C6. When an attempt that is not the last has produced a query and then fails (in the
  execution or in the answer step), the loop goes on as a run of the attempts left from
  the events so far: after the sleep the next event is the request to the SQL session
  for the same question, never an execution or a request to the response session, and a
  query executed next is the one that this new request produced.
\<close>

theorem later_failure_restarts_sql_generation:
  assumes "sql_stage env q tr = Inr (JStr query)"
    and "run_attempt env q tr = (Inl e, tr')"
    and "attempt < tries - 1"
  shows "ask_loop env q tr (attempt # next # rest)
           = ask_loop env q (tr' @ [Sleep (2 * (attempt + 1))]) (next # rest) \<and>
         (\<exists>evs. snd (ask_loop env q tr (attempt # next # rest))
                  = tr' @ [Sleep (2 * (attempt + 1)), SqlSend (sql_prompt q)] @ evs) \<and>
         (\<forall>query' evs.
            snd (ask_loop env q tr (attempt # next # rest))
              = tr' @ [Sleep (2 * (attempt + 1)), SqlSend (sql_prompt q), Execute query'] @ evs
            \<longrightarrow> sql_stage env q (tr' @ [Sleep (2 * (attempt + 1))]) = Inr (JStr query')) \<and>
         (\<forall>prompt evs. snd (ask_loop env q tr (attempt # next # rest))
              \<noteq> tr' @ [Sleep (2 * (attempt + 1)), RespSend prompt] @ evs) \<and>
         (\<forall>query' evs. snd (ask_loop env q tr (attempt # next # rest))
              \<noteq> tr' @ [Sleep (2 * (attempt + 1)), Execute query'] @ evs)"
proof -
  let ?t = "tr' @ [Sleep (2 * (attempt + 1))]"
  have step: "ask_loop env q tr (attempt # next # rest) = ask_loop env q ?t (next # rest)"
    using assms(2,3) by (rule ask_loop_retry)
  from run_attempt_begins [of env q ?t] obtain evs1 where
    first: "snd (run_attempt env q ?t) = ?t @ SqlSend (sql_prompt q) # evs1"
    by blast
  from ask_loop_begins [of env q ?t "next" rest] obtain evs2 where
    loop: "snd (ask_loop env q ?t (next # rest)) = snd (run_attempt env q ?t) @ evs2"
    by blast
  from first loop have whole:
    "snd (ask_loop env q ?t (next # rest)) = ?t @ SqlSend (sql_prompt q) # evs1 @ evs2"
    by (simp del: ask_loop.simps)
  have fresh: "sql_stage env q ?t = Inr (JStr query')"
    if "snd (ask_loop env q tr (attempt # next # rest))
          = tr' @ [Sleep (2 * (attempt + 1)), SqlSend (sql_prompt q), Execute query'] @ evs"
    for query' evs
  proof -
    from that step have w: "snd (ask_loop env q ?t (next # rest))
          = ?t @ SqlSend (sql_prompt q) # Execute query' # evs"
      by (simp del: ask_loop.simps)
    have "\<exists>evs1'. evs1 = Execute query' # evs1'"
      using ask_loop_after_attempt [of env q ?t "next" rest]
    proof
      assume "snd (ask_loop env q ?t (next # rest)) = snd (run_attempt env q ?t)"
      with w first have "?t @ SqlSend (sql_prompt q) # evs1
                           = ?t @ SqlSend (sql_prompt q) # Execute query' # evs"
        by (simp del: ask_loop.simps)
      then show ?thesis by simp
    next
      assume "\<exists>evs'. snd (ask_loop env q ?t (next # rest))
                = snd (run_attempt env q ?t) @ Sleep (2 * (next + 1)) # evs'"
      then obtain evs' where
        "snd (ask_loop env q ?t (next # rest))
           = snd (run_attempt env q ?t) @ Sleep (2 * (next + 1)) # evs'"
        by blast
      with w first have "?t @ SqlSend (sql_prompt q) # evs1 @ Sleep (2 * (next + 1)) # evs'
                           = ?t @ SqlSend (sql_prompt q) # Execute query' # evs"
        by (simp del: ask_loop.simps)
      then have "evs1 @ Sleep (2 * (next + 1)) # evs' = Execute query' # evs"
        by simp
      then show ?thesis by (cases evs1) auto
    qed
    then obtain evs1' where "evs1 = Execute query' # evs1'" by blast
    with first have "snd (run_attempt env q ?t) = ?t @ SqlSend (sql_prompt q) # Execute query' # evs1'"
      by simp
    then show ?thesis by (rule run_attempt_executes_fresh)
  qed
  have starts: "\<exists>evs. snd (ask_loop env q tr (attempt # next # rest))
                  = tr' @ [Sleep (2 * (attempt + 1)), SqlSend (sql_prompt q)] @ evs"
    using step whole by (simp del: ask_loop.simps)
  have no_resp: "snd (ask_loop env q tr (attempt # next # rest))
              \<noteq> tr' @ [Sleep (2 * (attempt + 1)), RespSend prompt] @ evs" for prompt evs
    using step whole by (simp del: ask_loop.simps)
  have no_exec: "snd (ask_loop env q tr (attempt # next # rest))
              \<noteq> tr' @ [Sleep (2 * (attempt + 1)), Execute query'] @ evs" for query' evs
    using step whole by (simp del: ask_loop.simps)
  from step starts fresh no_resp no_exec show ?thesis
    by blast
qed

theorem later_failure_restarts_sql_generation_witness:
  "ask (scenario [directive, recount_directive]
          [Inl (Raised ''database is locked''), count_rows] [answer]) ''How many?'' []
     = (Value (JStr ''There are 5 employees.''),
        [SqlSend (sql_prompt ''How many?''), Execute ''SELECT COUNT(*) FROM employees'',
         Sleep 2,
         SqlSend (sql_prompt ''How many?''), Execute ''SELECT COUNT(emp_no) FROM employees'',
         RespSend (response_prompt ''How many?'' ''[[5]]'')])"
proof -
  let ?env = "scenario [directive, recount_directive]
                [Inl (Raised ''database is locked''), count_rows] [answer]"
  let ?q = "''How many?''"
  let ?p = "SqlSend (sql_prompt ?q)"
  let ?x = "Execute ''SELECT COUNT(*) FROM employees''"
  have h1: "sql_stage ?env ?q [] = Inr (JStr ''SELECT COUNT(*) FROM employees'')"
    by (simp add: scenario_eval)
  have h2: "run_attempt ?env ?q [] = (Inl (Raised ''database is locked''), [?p, ?x])"
    by (simp add: scenario_eval)
  have h3: "(0::nat) < tries - 1"
    by (simp add: tries_def)
  have next_attempt: "run_attempt ?env ?q ([?p, ?x] @ [Sleep (2 * (0 + 1))])
        = (Inr (JStr ''There are 5 employees.''),
           [?p, ?x, Sleep 2, ?p, Execute ''SELECT COUNT(emp_no) FROM employees'',
            RespSend (response_prompt ?q ''[[5]]'')])"
    by (simp add: scenario_eval)
  from later_failure_restarts_sql_generation [OF h1 h2 h3, of 1 "[2, 3]"]
  have "ask_loop ?env ?q [] [0, 1, 2, 3] = ask_loop ?env ?q ([?p, ?x] @ [Sleep (2 * (0 + 1))]) [1, 2, 3]"
    by blast
  also have "\<dots> = (Value (JStr ''There are 5 employees.''),
           [?p, ?x, Sleep 2, ?p, Execute ''SELECT COUNT(emp_no) FROM employees'',
            RespSend (response_prompt ?q ''[[5]]'')])"
    using next_attempt by (rule ask_loop_return)
  finally show ?thesis
    by (simp only: ask_def attempts_of_ask)
qed

text \<open>
  C7. When \<open>ask\<close> returns a value, the events end with the three calls of one attempt:
  the request to the SQL session, whose reply was extracted and validated and whose
  \<^verbatim>\<open>sqlQuery\<close> is the query executed next, and the request to the response session with
  the serialised rows of that execution, whose reply was extracted and validated and
  whose \<^verbatim>\<open>message\<close>, a string, is the value returned.
\<close>

theorem answer_comes_from_one_attempt:
  assumes "ask env q tr = (Value m, tr')"
  shows "\<exists>pre sql_text sql_json query data dataText response_text response_json message.
           prefix tr pre \<and>
           tr' = pre @ [SqlSend (sql_prompt q), Execute query,
                        RespSend (response_prompt q dataText)] \<and>
           sql_send env pre (sql_prompt q) = Inr sql_text \<and>
           extract_json_from_response (loads env) sql_text = Inr sql_json \<and>
           validate sql_json sql_schema = Inr () \<and>
           subscript sql_json ''sqlQuery'' = Inr (JStr query) \<and>
           db_fetch env (pre @ [SqlSend (sql_prompt q)]) query = Inr data \<and>
           dumps env data = Inr dataText \<and>
           resp_send env (pre @ [SqlSend (sql_prompt q), Execute query])
             (response_prompt q dataText) = Inr response_text \<and>
           extract_json_from_response (loads env) response_text = Inr response_json \<and>
           validate response_json response_schema = Inr () \<and>
           subscript response_json ''message'' = Inr (JStr message) \<and>
           m = JStr message"
proof -
  from assms have "ask_loop env q tr [0..<tries] = (Value m, tr')"
    by (simp add: ask_def)
  from ask_loop_value [OF this] obtain pre where
    pre: "prefix tr pre" and run: "run_attempt env q pre = (Inr m, tr')"
    by blast
  from run_attempt_success [OF run] obtain query dataText where
    sql: "sql_stage env q pre = Inr (JStr query)"
    and exec: "execute_stage env (pre @ [SqlSend (sql_prompt q)]) query = Inr dataText"
    and ans: "answer_stage env q (pre @ [SqlSend (sql_prompt q), Execute query]) dataText = Inr m"
    and tr': "tr' = pre @ [SqlSend (sql_prompt q), Execute query,
                           RespSend (response_prompt q dataText)]"
    by blast
  from answer_stage_string [OF ans] obtain message where m: "m = JStr message"
    by blast
  from sql_stage_success [OF sql] obtain sql_text sql_json where
    s: "sql_send env pre (sql_prompt q) = Inr sql_text"
       "extract_json_from_response (loads env) sql_text = Inr sql_json"
       "validate sql_json sql_schema = Inr ()"
       "subscript sql_json ''sqlQuery'' = Inr (JStr query)"
    by blast
  from execute_stage_success [OF exec] obtain data where
    d: "db_fetch env (pre @ [SqlSend (sql_prompt q)]) query = Inr data"
       "dumps env data = Inr dataText"
    by blast
  from answer_stage_success [OF ans] m obtain response_text response_json where
    a: "resp_send env (pre @ [SqlSend (sql_prompt q), Execute query])
          (response_prompt q dataText) = Inr response_text"
       "extract_json_from_response (loads env) response_text = Inr response_json"
       "validate response_json response_schema = Inr ()"
       "subscript response_json ''message'' = Inr (JStr message)"
    by blast
  from pre tr' s d a m show ?thesis
    by blast
qed

theorem answer_comes_from_one_attempt_witness:
  "ask (scenario [prose, directive] [count_rows] [answer]) ''How many?'' []
     = (Value (JStr ''There are 5 employees.''),
        [SqlSend (sql_prompt ''How many?''), Sleep 2,
         SqlSend (sql_prompt ''How many?''), Execute ''SELECT COUNT(*) FROM employees'',
         RespSend (response_prompt ''How many?'' ''[[5]]'')]) \<and>
   (\<exists>pre query dataText.
      prefix [] pre \<and>
      [SqlSend (sql_prompt ''How many?''), Sleep 2,
       SqlSend (sql_prompt ''How many?''), Execute ''SELECT COUNT(*) FROM employees'',
       RespSend (response_prompt ''How many?'' ''[[5]]'')]
        = pre @ [SqlSend (sql_prompt ''How many?''), Execute query,
                 RespSend (response_prompt ''How many?'' dataText)] \<and>
      sql_stage (scenario [prose, directive] [count_rows] [answer]) ''How many?'' pre
        = Inr (JStr query))"
proof -
  let ?env = "scenario [prose, directive] [count_rows] [answer]"
  let ?q = "''How many?''"
  let ?p = "SqlSend (sql_prompt ?q)"
  have r1: "run_attempt ?env ?q [] = (Inl (JSONDecodeError ''Expecting value''), [?p])"
    by (simp add: scenario_eval)
  have r2: "run_attempt ?env ?q ([?p] @ [Sleep (2 * (0 + 1))])
        = (Inr (JStr ''There are 5 employees.''),
           [?p, Sleep 2, ?p, Execute ''SELECT COUNT(*) FROM employees'',
            RespSend (response_prompt ?q ''[[5]]'')])"
    by (simp add: scenario_eval)
  have "(0::nat) < tries - 1" by (simp add: tries_def)
  from ask_loop_retry [OF r1 this, of "[1, 2, 3]"] ask_loop_return [OF r2, of 1 "[2, 3]"]
  have h: "ask ?env ?q [] = (Value (JStr ''There are 5 employees.''),
           [?p, Sleep 2, ?p, Execute ''SELECT COUNT(*) FROM employees'',
            RespSend (response_prompt ?q ''[[5]]'')])"
    by (simp only: ask_def attempts_of_ask)
  from answer_comes_from_one_attempt [OF h] obtain pre sql_text sql_json query dataText where
    w: "prefix [] pre"
       "[?p, Sleep 2, ?p, Execute ''SELECT COUNT(*) FROM employees'',
         RespSend (response_prompt ?q ''[[5]]'')]
          = pre @ [?p, Execute query, RespSend (response_prompt ?q dataText)]"
       "sql_send ?env pre (sql_prompt ?q) = Inr sql_text"
       "extract_json_from_response (loads ?env) sql_text = Inr sql_json"
       "validate sql_json sql_schema = Inr ()"
       "subscript sql_json ''sqlQuery'' = Inr (JStr query)"
    by blast
  from w(3-6) have "sql_stage ?env ?q pre = Inr (JStr query)"
    by (simp add: sql_stage_def)
  with h w(1,2) show ?thesis by blast
qed

text \<open>
  C8. Whenever the decoder accepts the whole text, the extractor returns the decoded
  value of the whole text, whatever fences the text holds.
\<close>

theorem direct_json_returned_as_parsed:
  "decode text = Inr v \<Longrightarrow> extract_json_from_response decode text = Inr v"
  by (simp add: extract_json_from_response_def)

theorem direct_json_returned_as_parsed_witness:
  "decode_object ''{\"message\": \"hi\"}'' = Inr (JObj [(''message'', JStr ''hi'')]) \<and>
   extract_json_from_response decode_object ''{\"message\": \"hi\"}''
     = Inr (JObj [(''message'', JStr ''hi'')])"
proof -
  have h: "decode_object ''{\"message\": \"hi\"}'' = Inr (JObj [(''message'', JStr ''hi'')])"
    by (simp add: decode_object_def token_def json_ws_def)
  from h direct_json_returned_as_parsed [where decode = decode_object, OF h] show ?thesis by simp
qed

text \<open>
  C9. Replace the SQL session by one whose replies are the same or are validated
  directives that differ in \<^verbatim>\<open>description\<close> only (present with another value, or absent):
  \<open>ask\<close> returns the same value and adds the same events, so the same queries are
  executed and the same serialised results reach the response session.
\<close>

theorem description_not_consumed:
  assumes "\<forall>t. replies_agree env (sql_send env t (sql_prompt q)) (reply' t (sql_prompt q))"
  shows "ask (env\<lparr>sql_send := reply'\<rparr>) q tr = ask env q tr"
proof -
  have "ask_loop (env\<lparr>sql_send := reply'\<rparr>) q t attempts = ask_loop env q t attempts"
    for t attempts
  proof (induction attempts arbitrary: t)
    case Nil
    show ?case by simp
  next
    case (Cons a rest)
    have "run_attempt (env\<lparr>sql_send := reply'\<rparr>) q t = run_attempt env q t"
      using assms by (intro run_attempt_agree sql_stage_agree) simp
    with Cons.IH show ?case
      by (simp add: failure_text_def split: prod.splits sum.splits)
  qed
  then show ?thesis by (simp add: ask_def)
qed

theorem description_not_consumed_witness:
  "ask ((scenario [directive] [count_rows] [answer])
          \<lparr>sql_send := (\<lambda>tr prompt. scripted [bare_directive] (length (sql_requests tr)))\<rparr>)
       ''How many?'' []
     = (Value (JStr ''There are 5 employees.''),
        [SqlSend (sql_prompt ''How many?''), Execute ''SELECT COUNT(*) FROM employees'',
         RespSend (response_prompt ''How many?'' ''[[5]]'')])"
proof -
  let ?env = "scenario [directive] [count_rows] [answer]"
  let ?q = "''How many?''"
  let ?reply' = "\<lambda>tr (prompt::string). scripted [bare_directive] (length (sql_requests tr))"
  have l: "loads ?env = decode_object"
    by (simp add: scenario_def)
  have d1: "directive_of env ''```json {\"sqlQuery\": \"SELECT COUNT(*) FROM employees\", \"description\": \"count\"} ```''
              = Some (JObj [(''description'', JStr ''count''),
                            (''sqlQuery'', JStr ''SELECT COUNT(*) FROM employees'')])"
    if "loads env = decode_object" for env
    using that by (simp add: directive_of_def scenario_eval)
  have d2: "directive_of env ''{\"sqlQuery\": \"SELECT COUNT(*) FROM employees\"}''
              = Some (JObj [(''sqlQuery'', JStr ''SELECT COUNT(*) FROM employees'')])"
    if "loads env = decode_object" for env
    using that by (simp add: directive_of_def scenario_eval)
  have agree: "replies_agree ?env directive bare_directive"
    using d1 [OF l] d2 [OF l]
    by (simp add: replies_agree_def directive_def bare_directive_def same_but_description_def)
  have h: "\<forall>t. replies_agree ?env (sql_send ?env t (sql_prompt ?q)) (?reply' t (sql_prompt ?q))"
  proof
    fix t
    show "replies_agree ?env (sql_send ?env t (sql_prompt ?q)) (?reply' t (sql_prompt ?q))"
    proof (cases "length (sql_requests t) < 1")
      case True
      with agree show ?thesis by (simp add: scenario_def scripted_def)
    next
      case False
      then show ?thesis by (simp add: scenario_def scripted_def replies_agree_def)
    qed
  qed
  have "run_attempt ?env ?q [] = (Inr (JStr ''There are 5 employees.''),
        [SqlSend (sql_prompt ?q), Execute ''SELECT COUNT(*) FROM employees'',
         RespSend (response_prompt ?q ''[[5]]'')])"
    by (simp add: scenario_eval)
  from ask_loop_return [OF this, of 0 "[1, 2, 3]"]
  have "ask ?env ?q [] = (Value (JStr ''There are 5 employees.''),
        [SqlSend (sql_prompt ?q), Execute ''SELECT COUNT(*) FROM employees'',
         RespSend (response_prompt ?q ''[[5]]'')])"
    by (simp only: ask_def attempts_of_ask)
  with description_not_consumed [OF h, of "[]"] show ?thesis
    by simp
qed

text \<open>
  C10. When the whole text does not decode, holds a \<^verbatim>\<open>```json\<close> marker and holds no \<^verbatim>\<open>```\<close>
  after the first such marker, the extractor decodes everything after that marker with
  the whitespace at both ends removed, and its result is the result of that decoding: a
  value when the stripped text decodes. The stripped text is what is left of the text
  after the marker when a run of whitespace is taken from each end, and it neither
  begins nor ends with whitespace; whitespace is the twelve code points 9 to 13, 28 to
  32, 133 and 160.
\<close>

theorem unclosed_json_fence_still_parsed:
  assumes "decode text = Inl (JSONDecodeError m)"
    and "contains fence_json text"
    and "\<not> contains fence (after fence_json text)"
  shows "extract_json_from_response decode text = decode (strip (after fence_json text)) \<and>
         (\<forall>v. decode (strip (after fence_json text)) = Inr v \<longrightarrow>
              extract_json_from_response decode text = Inr v) \<and>
         (\<exists>l r. after fence_json text = l @ strip (after fence_json text) @ r \<and>
                list_all is_space l \<and> list_all is_space r) \<and>
         (strip (after fence_json text) = [] \<or>
            \<not> is_space (hd (strip (after fence_json text))) \<and>
            \<not> is_space (last (strip (after fence_json text)))) \<and>
         (\<forall>c. is_space c \<longleftrightarrow>
              (of_char c :: nat) \<in> {9, 10, 11, 12, 13, 28, 29, 30, 31, 32, 133, 160})"
proof -
  have res: "extract_json_from_response decode text = decode (strip (after fence_json text))"
    using assms by (simp add: extract_fallback candidate_unclosed)
  have ends: "strip (after fence_json text) = [] \<or>
            \<not> is_space (hd (strip (after fence_json text))) \<and>
            \<not> is_space (last (strip (after fence_json text)))"
    using strip_ends [of "after fence_json text"] by blast
  from res ends strip_decomposition [of "after fence_json text"] is_space_code_points
  show ?thesis by simp
qed

theorem unclosed_json_fence_still_parsed_witness:
  "decode_object (''Sure: ```json'' @ [CHR 0xA0, CHR 0x0A] @ ''{\"sqlQuery\": \"SELECT 1\"}'' @
                  [CHR 0x85, CHR 0xA0])
     = Inl (JSONDecodeError ''Expecting value'') \<and>
   contains fence_json (''Sure: ```json'' @ [CHR 0xA0, CHR 0x0A] @
                        ''{\"sqlQuery\": \"SELECT 1\"}'' @ [CHR 0x85, CHR 0xA0]) \<and>
   \<not> contains fence (after fence_json (''Sure: ```json'' @ [CHR 0xA0, CHR 0x0A] @
                        ''{\"sqlQuery\": \"SELECT 1\"}'' @ [CHR 0x85, CHR 0xA0])) \<and>
   decode_object (after fence_json (''Sure: ```json'' @ [CHR 0xA0, CHR 0x0A] @
                        ''{\"sqlQuery\": \"SELECT 1\"}'' @ [CHR 0x85, CHR 0xA0]))
     = Inl (JSONDecodeError ''Expecting value'') \<and>
   strip (after fence_json (''Sure: ```json'' @ [CHR 0xA0, CHR 0x0A] @
                        ''{\"sqlQuery\": \"SELECT 1\"}'' @ [CHR 0x85, CHR 0xA0]))
     = ''{\"sqlQuery\": \"SELECT 1\"}'' \<and>
   extract_json_from_response decode_object
       (''Sure: ```json'' @ [CHR 0xA0, CHR 0x0A] @ ''{\"sqlQuery\": \"SELECT 1\"}'' @
        [CHR 0x85, CHR 0xA0])
     = Inr (JObj [(''sqlQuery'', JStr ''SELECT 1'')])"
proof -
  let ?text = "''Sure: ```json'' @ [CHR 0xA0, CHR 0x0A] @ ''{\"sqlQuery\": \"SELECT 1\"}'' @
               [CHR 0x85, CHR 0xA0]"
  have h1: "decode_object ?text = Inl (JSONDecodeError ''Expecting value'')"
    by (simp add: decode_object_def token_def json_ws_def)
  have h2: "contains fence_json ?text"
    by (simp add: fence_json_def)
  have h3: "\<not> contains fence (after fence_json ?text)"
    by (simp add: fence_json_def fence_def)
  have raw: "decode_object (after fence_json ?text) = Inl (JSONDecodeError ''Expecting value'')"
    by (simp add: fence_json_def decode_object_def token_def json_ws_def)
  have stripped: "strip (after fence_json ?text) = ''{\"sqlQuery\": \"SELECT 1\"}''"
    by (simp add: fence_json_def strip_def is_space_def)
  have dec: "decode_object ''{\"sqlQuery\": \"SELECT 1\"}'' = Inr (JObj [(''sqlQuery'', JStr ''SELECT 1'')])"
    by (simp add: decode_object_def token_def json_ws_def)
  from unclosed_json_fence_still_parsed [where decode = decode_object, OF h1 h2 h3]
  have "extract_json_from_response decode_object ?text
          = decode_object (strip (after fence_json ?text))"
    by blast
  with stripped dec have "extract_json_from_response decode_object ?text
          = Inr (JObj [(''sqlQuery'', JStr ''SELECT 1'')])"
    by (simp only:)
  with h1 h2 h3 raw stripped show ?thesis
    by (simp only: simp_thms)
qed

end
